(* ===== verification/Prelude.thy ===== *)
theory Prelude
  imports Main "HOL-Library.AList"
begin

text \<open>
  Shared vocabulary of the development.

  A Go \<open>string\<close> and a Go \<open>[]byte\<close> are both byte sequences, so both are HOL's \<open>string\<close>
  (a list of 8-bit characters). A Go \<open>int64\<close> is an \<open>int\<close> whose arithmetic goes through
  \<open>wrap64\<close>, the two's complement reduction to 64 bits. A Go map is an association list with
  distinct keys; where the source ranges over a map, the order in which the runtime visits
  the keys is an explicit argument, because Go leaves it unspecified. The process environment
  is a function from names to values, with the empty string for an unset variable, which is
  what \<open>os.Getenv\<close> returns.
\<close>

named_theorems inv_intros \<open>preservation lemmas of the component invariants\<close>

type_synonym bytes = string
type_synonym env = "string \<Rightarrow> string"
type_synonym ('k, 'v) gomap = "('k \<times> 'v) list"

subsection \<open>64-bit two's complement\<close>

definition max_int64 :: int where
  "max_int64 = 9223372036854775807"

definition min_int64 :: int where
  "min_int64 = - 9223372036854775808"

definition wrap64 :: "int \<Rightarrow> int" where
  "wrap64 x = (x + 9223372036854775808) mod 18446744073709551616 - 9223372036854775808"

definition in_int64 :: "int \<Rightarrow> bool" where
  "in_int64 x \<longleftrightarrow> min_int64 \<le> x \<and> x \<le> max_int64"

lemmas int64_defs = max_int64_def min_int64_def in_int64_def wrap64_def

lemma wrap64_id [simp]: "in_int64 x \<Longrightarrow> wrap64 x = x"
  unfolding int64_defs by simp

lemma in_int64_wrap64 [simp]: "in_int64 (wrap64 x)"
proof -
  have "0 \<le> (x + 9223372036854775808) mod 18446744073709551616"
    and "(x + 9223372036854775808) mod 18446744073709551616 < 18446744073709551616"
    by simp_all
  then show ?thesis unfolding int64_defs by linarith
qed

lemma wrap64_succ: "in_int64 x \<Longrightarrow> x < max_int64 \<Longrightarrow> wrap64 (x + 1) = x + 1"
  by (rule wrap64_id) (simp add: in_int64_def)

lemma wrap64_succ_max: "wrap64 (max_int64 + 1) = min_int64"
  by (simp add: int64_defs)

lemma in_int64_small: "0 \<le> x \<Longrightarrow> x \<le> max_int64 \<Longrightarrow> in_int64 x"
  by (simp add: int64_defs)

subsection \<open>Association lists as Go maps\<close>

definition gm_keys :: "('k, 'v) gomap \<Rightarrow> 'k set" where
  "gm_keys m = fst ` set m"

abbreviation gm_ok :: "('k, 'v) gomap \<Rightarrow> bool" where
  "gm_ok m \<equiv> distinct (map fst m)"

lemma gm_keys_dom: "gm_keys m = dom (map_of m)"
  by (simp add: gm_keys_def dom_map_of_conv_image_fst)

lemma map_of_update [simp]: "map_of (AList.update k v m) = (map_of m)(k \<mapsto> v)"
  by (rule update_conv')

lemma gm_ok_update [simp]: "gm_ok m \<Longrightarrow> gm_ok (AList.update k v m)"
  by (rule distinct_update)

lemma gm_keys_update [simp]: "gm_keys (AList.update k v m) = insert k (gm_keys m)"
  by (simp add: gm_keys_dom)

text \<open>An order in which a \<open>range\<close> loop may visit the keys of a map.\<close>

definition iter_order :: "('k, 'v) gomap \<Rightarrow> 'k list \<Rightarrow> bool" where
  "iter_order m ks \<longleftrightarrow> distinct ks \<and> set ks = gm_keys m"

lemma iter_order_self: "gm_ok m \<Longrightarrow> iter_order m (map fst m)"
  by (simp add: iter_order_def gm_keys_def)

lemma iter_order_lookup:
  assumes "iter_order m ks" and "k \<in> set ks"
  obtains v where "map_of m k = Some v"
  using assms by (auto simp: iter_order_def gm_keys_dom)

subsection \<open>Searching a list\<close>

lemma find_None_all: "List.find P xs = None \<longleftrightarrow> (\<forall>x \<in> set xs. \<not> P x)"
  by (auto simp: find_None_iff)

lemma find_Some_in: "List.find P xs = Some x \<Longrightarrow> x \<in> set xs \<and> P x"
  by (auto simp: find_Some_iff)

end
