(* ===== verification/GoStrings.thy ===== *)
theory GoStrings
  imports Prelude
begin

text \<open>
  The functions of Go's packages \<open>strings\<close> and \<open>strconv\<close> that the program calls, on byte
  strings. Two remarks on Unicode. \<open>TrimSpace\<close> removes every code point with the White_Space
  property, given by its UTF-8 encoding. \<open>ToLower\<close> maps the ASCII letters and the two code
  points outside ASCII whose lower case is ASCII (U+0130 and U+212A); any other code point is
  left as it is: its lower case is not ASCII either, and the program compares the result with
  ASCII constants only. \<open>EqualFold\<close> is likewise exact when one side is ASCII.
\<close>

abbreviation byte :: "nat \<Rightarrow> char" where
  "byte n \<equiv> char_of n"

abbreviation code :: "char \<Rightarrow> nat" where
  "code c \<equiv> of_char c"

definition HasPrefix :: "string \<Rightarrow> string \<Rightarrow> bool" where
  "HasPrefix s p \<longleftrightarrow> take (length p) s = p"

definition HasSuffix :: "string \<Rightarrow> string \<Rightarrow> bool" where
  "HasSuffix s p \<longleftrightarrow> HasPrefix (rev s) (rev p)"

definition TrimPrefix :: "string \<Rightarrow> string \<Rightarrow> string" where
  "TrimPrefix s p = (if HasPrefix s p then drop (length p) s else s)"

definition TrimSuffix :: "string \<Rightarrow> string \<Rightarrow> string" where
  "TrimSuffix s p = (if HasSuffix s p then take (length s - length p) s else s)"

fun Contains :: "string \<Rightarrow> string \<Rightarrow> bool" where
  "Contains [] p = (p = [])"
| "Contains (c # cs) p = (HasPrefix (c # cs) p \<or> Contains cs p)"

text \<open>\<open>strings.Trim (s, cutset)\<close> for a cutset of one ASCII character.\<close>

definition Trim1 :: "string \<Rightarrow> char \<Rightarrow> string" where
  "Trim1 s c = rev (dropWhile (\<lambda>x. x = c) (rev (dropWhile (\<lambda>x. x = c) s)))"

text \<open>\<open>strings.Split (s, sep)\<close> for a separator of one character; never empty.\<close>

fun Split1 :: "string \<Rightarrow> char \<Rightarrow> string list" where
  "Split1 [] sep = [[]]"
| "Split1 (c # cs) sep =
     (if c = sep then [] # Split1 cs sep
      else (case Split1 cs sep of [] \<Rightarrow> [[c]] | p # ps \<Rightarrow> (c # p) # ps))"

text \<open>\<open>strings.SplitN (s, sep, 2)\<close> for a separator of one character.\<close>

definition SplitN2 :: "string \<Rightarrow> char \<Rightarrow> string list" where
  "SplitN2 s sep =
     (if sep \<in> set s
      then [takeWhile (\<lambda>c. c \<noteq> sep) s, tl (dropWhile (\<lambda>c. c \<noteq> sep) s)]
      else [s])"

definition Repeat :: "string \<Rightarrow> nat \<Rightarrow> string" where
  "Repeat s n = concat (replicate n s)"

subsection \<open>White space\<close>

definition ws_seqs :: "string list" where
  "ws_seqs = map (map byte)
     ([[9], [10], [11], [12], [13], [32], [194, 133], [194, 160], [225, 154, 128]]
      @ map (\<lambda>n. [226, 128, n]) [128, 129, 130, 131, 132, 133, 134, 135, 136, 137, 138]
      @ [[226, 128, 168], [226, 128, 169], [226, 128, 175], [226, 129, 159], [227, 128, 128]])"

function strip_seqs :: "string list \<Rightarrow> string \<Rightarrow> string" where
  "strip_seqs ps s =
     (case List.find (\<lambda>p. p \<noteq> [] \<and> HasPrefix s p) ps of
        None \<Rightarrow> s
      | Some p \<Rightarrow> strip_seqs ps (drop (length p) s))"
  by pat_completeness auto
termination
proof (relation "measure (\<lambda>(ps, s). length s)")
  fix ps s p
  assume "List.find (\<lambda>p. p \<noteq> [] \<and> HasPrefix s p) ps = Some p"
  then have "p \<noteq> []" and "take (length p) s = p"
    by (auto simp: find_Some_iff HasPrefix_def)
  then have "0 < length p" and "s \<noteq> []" by auto
  then show "((ps, drop (length p) s), (ps, s)) \<in> measure (\<lambda>(ps, s). length s)"
    by simp
qed simp

declare strip_seqs.simps [simp del]

definition TrimLeftSpace :: "string \<Rightarrow> string" where
  "TrimLeftSpace s = strip_seqs ws_seqs s"

definition TrimRightSpace :: "string \<Rightarrow> string" where
  "TrimRightSpace s = rev (strip_seqs (map rev ws_seqs) (rev s))"

definition TrimSpace :: "string \<Rightarrow> string" where
  "TrimSpace s = TrimRightSpace (TrimLeftSpace s)"

subsection \<open>Case\<close>

definition ascii_lower :: "char \<Rightarrow> char" where
  "ascii_lower c = (if 65 \<le> code c \<and> code c \<le> (90::nat) then byte (code c + 32) else c)"

fun ToLower :: "string \<Rightarrow> string" where
  "ToLower [] = []"
| "ToLower (c # cs) =
     (if c = byte 196 \<and> take 1 cs = [byte 176] then CHR ''i'' # ToLower (drop 1 cs)
      else if c = byte 226 \<and> take 2 cs = [byte 132, byte 170] then CHR ''k'' # ToLower (drop 2 cs)
      else ascii_lower c # ToLower cs)"

fun fold_ascii :: "string \<Rightarrow> string" where
  "fold_ascii [] = []"
| "fold_ascii (c # cs) =
     (if c = byte 197 \<and> take 1 cs = [byte 191] then CHR ''s'' # fold_ascii (drop 1 cs)
      else if c = byte 226 \<and> take 2 cs = [byte 132, byte 170] then CHR ''k'' # fold_ascii (drop 2 cs)
      else ascii_lower c # fold_ascii cs)"

definition EqualFold :: "string \<Rightarrow> string \<Rightarrow> bool" where
  "EqualFold s t \<longleftrightarrow> fold_ascii s = fold_ascii t"

subsection \<open>Numbers and booleans\<close>

definition ParseBool :: "string \<Rightarrow> bool option" where
  "ParseBool s =
     (if s \<in> {''1'', ''t'', ''T'', ''TRUE'', ''true'', ''True''} then Some True
      else if s \<in> {''0'', ''f'', ''F'', ''FALSE'', ''false'', ''False''} then Some False
      else None)"

definition is_digit :: "char \<Rightarrow> bool" where
  "is_digit c \<longleftrightarrow> 48 \<le> code c \<and> code c \<le> (57::nat)"

definition digit_char :: "nat \<Rightarrow> char" where
  "digit_char d = byte (48 + d)"

fun digits_acc :: "nat \<Rightarrow> string \<Rightarrow> nat option" where
  "digits_acc acc [] = Some acc"
| "digits_acc acc (c # cs) =
     (if is_digit c then digits_acc (10 * acc + (code c - 48)) cs else None)"

definition parse_nat :: "string \<Rightarrow> nat option" where
  "parse_nat s = (if s = [] then None else digits_acc 0 s)"

text \<open>\<open>strconv.ParseInt (s, 10, 64)\<close>; \<open>None\<close> stands for a syntax or a range error.\<close>

definition ParseInt64 :: "string \<Rightarrow> int option" where
  "ParseInt64 s =
     (let neg = (s \<noteq> [] \<and> hd s = CHR ''-'');
          body = (if s \<noteq> [] \<and> (hd s = CHR ''-'' \<or> hd s = CHR ''+'') then tl s else s)
      in case parse_nat body of
           None \<Rightarrow> None
         | Some n \<Rightarrow>
             (let v = (if neg then - int n else int n) in if in_int64 v then Some v else None))"

fun nat_digits :: "nat \<Rightarrow> string" where
  "nat_digits n = (if n < 10 then [digit_char n] else nat_digits (n div 10) @ [digit_char (n mod 10)])"

declare nat_digits.simps [simp del]

definition FormatInt :: "int \<Rightarrow> string" where
  "FormatInt i = (if i < 0 then CHR ''-'' # nat_digits (nat (- i)) else nat_digits (nat i))"

subsection \<open>Facts\<close>

lemma HasPrefix_append [simp]: "HasPrefix (p @ s) p"
  by (simp add: HasPrefix_def)

lemma HasPrefix_iff: "HasPrefix s p \<longleftrightarrow> (\<exists>r. s = p @ r)"
  by (auto simp: HasPrefix_def) (metis append_take_drop_id)

lemma HasSuffix_iff: "HasSuffix s p \<longleftrightarrow> (\<exists>r. s = r @ p)"
  by (auto simp: HasSuffix_def HasPrefix_iff) (metis rev_append rev_rev_ident)

lemma HasSuffix_append [simp]: "HasSuffix (s @ p) p"
  by (auto simp: HasSuffix_iff)

lemma TrimPrefix_append [simp]: "TrimPrefix (p @ s) p = s"
  by (simp add: TrimPrefix_def)

lemma TrimSuffix_append [simp]: "TrimSuffix (s @ p) p = s"
  by (simp add: TrimSuffix_def)

lemma Contains_iff: "Contains s p \<longleftrightarrow> (\<exists>a b. s = a @ p @ b)"
proof (induction s)
  case Nil
  then show ?case by auto
next
  case (Cons c cs)
  show ?case
  proof
    assume "Contains (c # cs) p"
    then consider "HasPrefix (c # cs) p" | "Contains cs p" by auto
    then show "\<exists>a b. c # cs = a @ p @ b"
    proof cases
      case 1
      then obtain r where "c # cs = [] @ p @ r" by (auto simp: HasPrefix_iff)
      then show ?thesis by blast
    next
      case 2
      with Cons.IH obtain a b where "cs = a @ p @ b" by blast
      then have "c # cs = (c # a) @ p @ b" by simp
      then show ?thesis by blast
    qed
  next
    assume "\<exists>a b. c # cs = a @ p @ b"
    then obtain a b where eq: "c # cs = a @ p @ b" by blast
    show "Contains (c # cs) p"
    proof (cases a)
      case Nil
      with eq have "HasPrefix (c # cs) p" by (simp add: HasPrefix_iff)
      then show ?thesis by simp
    next
      case (Cons x a')
      with eq have "cs = a' @ p @ b" by simp
      with \<open>Contains cs p \<longleftrightarrow> (\<exists>a b. cs = a @ p @ b)\<close> show ?thesis by auto
    qed
  qed
qed

lemma Contains_append_left: "Contains s p \<Longrightarrow> Contains (q @ s) p"
  by (auto simp: Contains_iff) (metis append_assoc)

lemma code_byte [simp]: "n < 256 \<Longrightarrow> code (byte n) = n"
  by simp

lemma digit_char_props [simp]:
  "d < 10 \<Longrightarrow> is_digit (digit_char d)" "d < 10 \<Longrightarrow> code (digit_char d) - 48 = d"
  by (simp_all add: is_digit_def digit_char_def)

lemma digits_acc_append:
  "digits_acc acc (xs @ ys) = (case digits_acc acc xs of None \<Rightarrow> None | Some a \<Rightarrow> digits_acc a ys)"
  by (induction xs arbitrary: acc) auto

lemma digits_acc_nat_digits: "digits_acc 0 (nat_digits n) = Some n"
proof (induction n rule: nat_digits.induct)
  case (1 n)
  show ?case
  proof (cases "n < 10")
    case True
    then show ?thesis by (simp add: nat_digits.simps [of n])
  next
    case False
    with 1 have "digits_acc 0 (nat_digits (n div 10)) = Some (n div 10)" by simp
    with False show ?thesis
      by (simp add: nat_digits.simps [of n] digits_acc_append)
  qed
qed

lemma nat_digits_nonempty [simp]: "nat_digits n \<noteq> []"
  by (simp add: nat_digits.simps [of n])

lemma parse_nat_digits [simp]: "parse_nat (nat_digits n) = Some n"
  by (simp add: parse_nat_def digits_acc_nat_digits)

lemma set_nat_digits: "set (nat_digits n) \<subseteq> Collect is_digit"
proof (induction n rule: nat_digits.induct)
  case (1 n)
  then show ?case by (cases "n < 10") (auto simp: nat_digits.simps [of n])
qed

lemma hd_nat_digits: "is_digit (hd (nat_digits n))"
  using set_nat_digits [of n] by (cases "nat_digits n") auto

lemma not_digit_signs [simp]: "\<not> is_digit (CHR ''-'')" "\<not> is_digit (CHR ''+'')"
  by (simp_all add: is_digit_def)

text \<open>Formatting an \<open>int64\<close> and parsing it back is the identity.\<close>

lemma ParseInt64_FormatInt: "in_int64 i \<Longrightarrow> ParseInt64 (FormatInt i) = Some i"
  using hd_nat_digits [of "nat i"]
  by (auto simp: ParseInt64_def FormatInt_def Let_def)

lemma FormatInt_inj: "in_int64 i \<Longrightarrow> in_int64 j \<Longrightarrow> FormatInt i = FormatInt j \<Longrightarrow> i = j"
  by (metis ParseInt64_FormatInt option.inject)

lemma ParseInt64_range: "ParseInt64 s = Some v \<Longrightarrow> in_int64 v"
  by (auto simp: ParseInt64_def Let_def split: option.splits if_splits)

lemma strip_seqs_None:
  "List.find (\<lambda>p. p \<noteq> [] \<and> HasPrefix s p) ps = None \<Longrightarrow> strip_seqs ps s = s"
  by (simp add: strip_seqs.simps [of ps s])

lemma strip_seqs_suffix: "\<exists>r. s = r @ strip_seqs ps s"
proof (induction ps s rule: strip_seqs.induct)
  case (1 ps s)
  show ?case
  proof (cases "List.find (\<lambda>p. p \<noteq> [] \<and> HasPrefix s p) ps")
    case None
    then show ?thesis by (simp add: strip_seqs.simps [of ps s])
  next
    case (Some p)
    with 1 obtain r where r: "drop (length p) s = r @ strip_seqs ps (drop (length p) s)" by blast
    have "s = take (length p) s @ drop (length p) s" by simp
    also have "\<dots> = (take (length p) s @ r) @ strip_seqs ps (drop (length p) s)"
      by (subst r) simp
    finally have "\<exists>q. s = q @ strip_seqs ps (drop (length p) s)" by blast
    with Some show ?thesis by (simp add: strip_seqs.simps [of ps s])
  qed
qed

lemma strip_seqs_done: "List.find (\<lambda>p. p \<noteq> [] \<and> HasPrefix (strip_seqs ps s) p) ps = None"
proof (induction ps s rule: strip_seqs.induct)
  case (1 ps s)
  then show ?case
    by (cases "List.find (\<lambda>p. p \<noteq> [] \<and> HasPrefix s p) ps")
      (simp_all add: strip_seqs.simps [of ps s])
qed

lemma strip_seqs_idem [simp]: "strip_seqs ps (strip_seqs ps s) = strip_seqs ps s"
  by (rule strip_seqs_None) (rule strip_seqs_done)

lemma TrimSpace_Nil [simp]: "TrimSpace [] = []"
proof -
  have "strip_seqs ps [] = []" for ps using strip_seqs_suffix [of "[]" ps] by simp
  then show ?thesis by (simp add: TrimSpace_def TrimLeftSpace_def TrimRightSpace_def)
qed

subsection \<open>Plain words\<close>

text \<open>Visible ASCII: what the names and settings that the program compares against consist of.\<close>

definition plain :: "char \<Rightarrow> bool" where
  "plain c \<longleftrightarrow> 33 \<le> code c \<and> code c \<le> (126::nat)"

lemma strip_seqs_plain:
  assumes "\<forall>p \<in> set ps. \<forall>c \<in> set (take 1 p). \<not> plain c" "\<forall>c \<in> set (take 1 s). plain c"
  shows "strip_seqs ps s = s"
proof -
  have "\<not> (p \<noteq> [] \<and> HasPrefix s p)" if "p \<in> set ps" for p
    using assms(1) [rule_format, OF that] assms(2) by (cases p) (auto simp: HasPrefix_iff)
  then have "List.find (\<lambda>p. p \<noteq> [] \<and> HasPrefix s p) ps = None"
    by (simp only: find_None_iff) blast
  then show ?thesis by (subst strip_seqs.simps) (simp only: option.case)
qed

text \<open>Text that begins and ends with a visible character is not trimmed.\<close>

lemma TrimSpace_ends:
  assumes "s \<noteq> []" "plain (hd s)" "plain (last s)"
  shows "TrimSpace s = s"
proof -
  have "\<forall>c \<in> set (take 1 s). plain c" using assms by (cases s) auto
  then have "TrimLeftSpace s = s"
    unfolding TrimLeftSpace_def by (intro strip_seqs_plain) (simp add: ws_seqs_def plain_def)
  moreover have "\<forall>c \<in> set (take 1 (rev s)). plain c" using assms by (cases s rule: rev_cases) auto
  then have "strip_seqs (map rev ws_seqs) (rev s) = rev s"
    by (intro strip_seqs_plain) (simp add: ws_seqs_def plain_def)
  then have "TrimRightSpace s = s" by (simp add: TrimRightSpace_def)
  ultimately show ?thesis by (simp add: TrimSpace_def)
qed

lemma TrimSpace_plain:
  assumes "\<forall>c \<in> set s. plain c"
  shows "TrimSpace s = s"
  using assms TrimSpace_ends [of s] by (cases "s = []") auto

lemma ToLower_plain:
  assumes "\<forall>c \<in> set s. plain c"
  shows "ToLower s = map ascii_lower s"
proof -
  have "c \<noteq> byte 196" "c \<noteq> byte 226" if "plain c" for c
    using that by (auto simp: plain_def)
  with assms show ?thesis by (induction s) auto
qed

lemma fold_ascii_plain:
  assumes "\<forall>c \<in> set s. plain c"
  shows "fold_ascii s = map ascii_lower s"
proof -
  have "c \<noteq> byte 197" "c \<noteq> byte 226" if "plain c" for c
    using that by (auto simp: plain_def)
  with assms show ?thesis by (induction s) auto
qed

declare ToLower.simps(2) [simp del] fold_ascii.simps(2) [simp del]

lemmas plain_eval = TrimSpace_plain ToLower_plain ascii_lower_def plain_def char_of_eq_iff

lemma TrimSpace_idem [simp]: "TrimSpace (TrimSpace s) = TrimSpace s"
proof -
  let ?x = "TrimLeftSpace s" and ?y = "TrimSpace s"
  obtain r where "rev ?x = r @ strip_seqs (map rev ws_seqs) (rev ?x)"
    using strip_seqs_suffix by blast
  then have x: "?x = ?y @ rev r"
    unfolding TrimSpace_def TrimRightSpace_def by (metis rev_append rev_rev_ident)
  have none: "\<not> (p \<noteq> [] \<and> HasPrefix ?x p)" if "p \<in> set ws_seqs" for p
    using strip_seqs_done [of ws_seqs s] that unfolding find_None_iff TrimLeftSpace_def by blast
  have "\<not> (p \<noteq> [] \<and> HasPrefix ?y p)" if "p \<in> set ws_seqs" for p
    using none [OF that] x by (auto simp: HasPrefix_iff)
  then have "List.find (\<lambda>p. p \<noteq> [] \<and> HasPrefix ?y p) ws_seqs = None"
    unfolding find_None_iff by blast
  then have "TrimLeftSpace ?y = ?y" unfolding TrimLeftSpace_def by (rule strip_seqs_None)
  moreover have "TrimRightSpace ?y = ?y" by (simp add: TrimSpace_def TrimRightSpace_def)
  ultimately show ?thesis by (simp add: TrimSpace_def)
qed

lemma SplitN2_parts: "SplitN2 s sep = [a, b] \<Longrightarrow> s = a @ sep # b"
proof -
  have "sep \<in> set s \<Longrightarrow> s = takeWhile (\<lambda>c. c \<noteq> sep) s @ sep # tl (dropWhile (\<lambda>c. c \<noteq> sep) s)"
    by (induction s) auto
  then show "SplitN2 s sep = [a, b] \<Longrightarrow> s = a @ sep # b"
    by (auto simp: SplitN2_def split: if_splits)
qed

end
