(* ===== verification/Codec.thy ===== *)
theory Codec
  imports GoStrings
begin

text \<open>
  The text encodings of Go's standard library that the program calls: \<open>encoding/hex\<close> (lower
  case on output, either case on input) and \<open>base64.StdEncoding\<close> (padded, not strict: carriage
  returns and line feeds are skipped on input, and the unused low bits of a final quantum are
  ignored). The main facts are the two round trips and the lengths of the encodings.
\<close>

subsection \<open>Hexadecimal\<close>

definition hex_digit :: "nat \<Rightarrow> char" where
  "hex_digit d = (if d < 10 then byte (48 + d) else byte (87 + d))"

definition hex_val :: "char \<Rightarrow> nat option" where
  "hex_val c =
     (let n = (code c :: nat)
      in if 48 \<le> n \<and> n \<le> 57 then Some (n - 48)
         else if 97 \<le> n \<and> n \<le> 102 then Some (n - 87)
         else if 65 \<le> n \<and> n \<le> 70 then Some (n - 55)
         else None)"

fun hex_encode :: "bytes \<Rightarrow> string" where
  "hex_encode [] = []"
| "hex_encode (b # bs) = hex_digit (code b div 16) # hex_digit (code b mod 16) # hex_encode bs"

fun hex_decode :: "string \<Rightarrow> bytes option" where
  "hex_decode [] = Some []"
| "hex_decode [c] = None"
| "hex_decode (c # d # cs) =
     (case (hex_val c, hex_val d, hex_decode cs) of
        (Some h, Some l, Some bs) \<Rightarrow> Some (byte (16 * h + l) # bs)
      | _ \<Rightarrow> None)"

lemma hex_val_digit [simp]: "d < 16 \<Longrightarrow> hex_val (hex_digit d) = Some d"
  by (auto simp: hex_val_def hex_digit_def Let_def)

lemma code_less [simp]: "(code c :: nat) < 256"
  using of_char_eq_iff by simp

lemma hex_roundtrip [simp]: "hex_decode (hex_encode bs) = Some bs"
proof (induction bs)
  case (Cons b bs)
  have "(code b :: nat) div 16 < 16" using code_less [of b] by linarith
  moreover have "16 * ((code b :: nat) div 16) + code b mod 16 = code b" by simp
  ultimately show ?case using Cons by simp
qed simp

lemma length_hex_encode [simp]: "length (hex_encode bs) = 2 * length bs"
  by (induction bs) auto

lemma hex_encode_inj: "hex_encode a = hex_encode b \<Longrightarrow> a = b"
  by (metis hex_roundtrip option.inject)

lemma hex_encode_chars: "set (hex_encode bs) \<subseteq> set ''0123456789abcdef''"
proof (induction bs)
  case (Cons b bs)
  have digit: "hex_digit d \<in> set ''0123456789abcdef''" if "d < 16" for d
  proof -
    have "\<forall>d \<in> set [0..<16]. hex_digit d \<in> set ''0123456789abcdef''"
      by code_simp
    with that show ?thesis by simp
  qed
  have "(code b :: nat) div 16 < 16" using code_less [of b] by linarith
  with Cons digit show ?case by simp
qed simp

subsection \<open>Base64\<close>

text \<open>The alphabet: upper case letters, lower case letters, digits, plus and slash.\<close>

definition b64_char :: "nat \<Rightarrow> char" where
  "b64_char n =
     (if n < 26 then byte (65 + n)
      else if n < 52 then byte (71 + n)
      else if n < 62 then byte (n - 4)
      else if n = 62 then CHR ''+''
      else CHR ''/'')"

definition b64_val :: "char \<Rightarrow> nat option" where
  "b64_val c =
     (let n = (code c :: nat)
      in if 65 \<le> n \<and> n \<le> 90 then Some (n - 65)
         else if 97 \<le> n \<and> n \<le> 122 then Some (n - 71)
         else if 48 \<le> n \<and> n \<le> 57 then Some (n + 4)
         else if n = 43 then Some 62
         else if n = 47 then Some 63
         else None)"

fun b64_encode :: "bytes \<Rightarrow> string" where
  "b64_encode [] = []"
| "b64_encode [a] =
     [b64_char (code a div 4), b64_char (code a mod 4 * 16), CHR ''='', CHR ''='']"
| "b64_encode [a, b] =
     [b64_char (code a div 4), b64_char (code a mod 4 * 16 + code b div 16),
      b64_char (code b mod 16 * 4), CHR ''='']"
| "b64_encode (a # b # c # bs) =
     b64_char (code a div 4) # b64_char (code a mod 4 * 16 + code b div 16)
     # b64_char (code b mod 16 * 4 + code c div 64) # b64_char (code c mod 64) # b64_encode bs"

text \<open>The decoder on a text from which the line breaks are removed, in quanta of four.\<close>

fun b64_quanta :: "string \<Rightarrow> bytes option" where
  "b64_quanta [] = Some []"
| "b64_quanta (w # x # y # z # cs) =
     (case (b64_val w, b64_val x) of
        (Some p, Some q) \<Rightarrow>
          (if y = CHR ''='' then
             (if z = CHR ''='' \<and> cs = [] then Some [byte (p * 4 + q div 16)] else None)
           else (case b64_val y of
             None \<Rightarrow> None
           | Some r \<Rightarrow>
               if z = CHR ''='' then
                 (if cs = [] then Some [byte (p * 4 + q div 16), byte (q mod 16 * 16 + r div 4)]
                  else None)
               else (case (b64_val z, b64_quanta cs) of
                 (Some s, Some bs) \<Rightarrow>
                   Some (byte (p * 4 + q div 16) # byte (q mod 16 * 16 + r div 4)
                         # byte (r mod 4 * 64 + s) # bs)
               | _ \<Rightarrow> None)))
      | _ \<Rightarrow> None)"
| "b64_quanta _ = None"

definition b64_decode :: "string \<Rightarrow> bytes option" where
  "b64_decode s = b64_quanta (filter (\<lambda>c. c \<noteq> CHR 0x0D \<and> c \<noteq> CHR 0x0A) s)"

lemma b64_val_char: "n < 64 \<Longrightarrow> b64_val (b64_char n) = Some n"
  by (auto simp: b64_char_def b64_val_def Let_def)

lemma b64_chars:
  assumes "n < 64"
  shows "b64_val (b64_char n) = Some n" and "b64_char n \<noteq> CHR ''=''"
    and "b64_char n \<noteq> CHR 0x0D" and "b64_char n \<noteq> CHR 0x0A"
proof -
  from assms show v: "b64_val (b64_char n) = Some n" by (rule b64_val_char)
  have "b64_val (CHR ''='') = None" "b64_val (CHR 0x0D) = None" "b64_val (CHR 0x0A) = None"
    by (simp_all add: b64_val_def)
  with v show "b64_char n \<noteq> CHR ''=''" and "b64_char n \<noteq> CHR 0x0D" and "b64_char n \<noteq> CHR 0x0A"
    by auto
qed

lemma small_div_mod:
  fixes a :: nat
  shows "a mod 4 \<le> 3" and "a mod 16 \<le> 15" and "a mod 64 \<le> 63"
    and "a < 256 \<Longrightarrow> a div 4 \<le> 63" and "a < 256 \<Longrightarrow> a div 16 \<le> 15" and "a < 256 \<Longrightarrow> a div 64 \<le> 3"
  by (simp_all add: less_Suc_eq_le [symmetric] less_mult_imp_div_less)

lemma b64_bounds:
  fixes a b :: nat
  shows "a < 256 \<Longrightarrow> a div 4 < 64" and "a mod 4 * 16 < 64" and "b mod 16 * 4 < 64"
    and "c mod 64 < (64::nat)"
    and "b < 256 \<Longrightarrow> a mod 4 * 16 + b div 16 < 64"
    and "a < 256 \<Longrightarrow> b mod 16 * 4 + a div 64 < 64"
proof -
  have le: "x \<le> 63 \<Longrightarrow> x < 64" "x \<le> 3 \<Longrightarrow> x * 16 < 64" "x \<le> 15 \<Longrightarrow> x * 4 < 64"
    "x \<le> 3 \<Longrightarrow> y \<le> 15 \<Longrightarrow> x * 16 + y < 64" "x \<le> 15 \<Longrightarrow> y \<le> 3 \<Longrightarrow> x * 4 + y < 64" for x y :: nat
    by linarith+
  show "a mod 4 * 16 < 64" and "b mod 16 * 4 < 64" and "c mod 64 < (64::nat)"
    by (rule le small_div_mod)+
  show "a div 4 < 64" if "a < 256" by (rule le) (rule small_div_mod that)+
  show "a mod 4 * 16 + b div 16 < 64" if "b < 256" by (rule le) (rule small_div_mod that)+
  show "b mod 16 * 4 + a div 64 < 64" if "a < 256" by (rule le) (rule small_div_mod that)+
qed

lemma b64_join:
  fixes a b c :: nat
  shows "(a mod 4 * 16) div 16 = a mod 4"
    and "b < 256 \<Longrightarrow> (a mod 4 * 16 + b div 16) div 16 = a mod 4"
    and "b < 256 \<Longrightarrow> (a mod 4 * 16 + b div 16) mod 16 = b div 16"
    and "(b mod 16 * 4) div 4 = b mod 16"
    and "c < 256 \<Longrightarrow> (b mod 16 * 4 + c div 64) div 4 = b mod 16"
    and "c < 256 \<Longrightarrow> (b mod 16 * 4 + c div 64) mod 4 = c div 64"
proof -
  have join: "(x * k + y) div k = x" "(x * k + y) mod k = y" if "y < k" for x y k :: nat
    using that by simp_all
  have lt: "b < 256 \<Longrightarrow> b div 16 < 16" "c < 256 \<Longrightarrow> c div 64 < 4"
    using small_div_mod [of b] small_div_mod [of c] by linarith+
  show "(a mod 4 * 16) div 16 = a mod 4" and "(b mod 16 * 4) div 4 = b mod 16" by simp_all
  show "(a mod 4 * 16 + b div 16) div 16 = a mod 4" if "b < 256"
    using join lt that by blast
  show "(a mod 4 * 16 + b div 16) mod 16 = b div 16" if "b < 256"
    using join lt that by blast
  show "(b mod 16 * 4 + c div 64) div 4 = b mod 16" if "c < 256"
    using join lt that by blast
  show "(b mod 16 * 4 + c div 64) mod 4 = c div 64" if "c < 256"
    using join lt that by blast
qed

lemma b64_no_breaks: "filter (\<lambda>c. c \<noteq> CHR 0x0D \<and> c \<noteq> CHR 0x0A) (b64_encode bs) = b64_encode bs"
  by (induction bs rule: b64_encode.induct)
    (simp_all add: b64_chars b64_bounds)

lemma b64_quanta_encode: "b64_quanta (b64_encode bs) = Some bs"
  by (induction bs rule: b64_encode.induct)
    (simp_all only: b64_encode.simps b64_quanta.simps b64_chars b64_bounds b64_join code_less
      option.simps prod.simps if_True if_False simp_thms refl mod_mult_div_eq div_mult_mod_eq char_of_char)

lemma b64_roundtrip [simp]: "b64_decode (b64_encode bs) = Some bs"
  by (simp add: b64_decode_def b64_no_breaks b64_quanta_encode)

lemma b64_encode_inj: "b64_encode a = b64_encode b \<Longrightarrow> a = b"
  by (metis b64_roundtrip option.inject)

lemma b64_encode_eq_Nil [simp]: "b64_encode bs = [] \<longleftrightarrow> bs = []"
  by (cases bs rule: b64_encode.cases) auto

lemma length_b64_encode: "length (b64_encode bs) = 4 * ((length bs + 2) div 3)"
proof (induction bs rule: b64_encode.induct)
  case (4 a b c bs)
  have "(length (a # b # c # bs) + 2) div 3 = (length bs + 2) div 3 + 1" by simp
  with 4 show ?case by simp
qed auto

text \<open>A line break after the text, as a key file has, changes nothing.\<close>

lemma b64_decode_newline: "b64_decode (s @ [CHR 0x0A]) = b64_decode s"
  by (simp add: b64_decode_def)

lemma b64_encode_plain: "c \<in> set (b64_encode bs) \<Longrightarrow> plain c"
proof -
  have p: "plain (b64_char n)" if "n < 64" for n
    using that by (auto simp: b64_char_def plain_def)
  have "\<forall>c \<in> set (b64_encode bs). plain c"
    by (induction bs rule: b64_encode.induct) (simp_all add: p b64_bounds code_less, simp_all add: plain_def)
  then show "c \<in> set (b64_encode bs) \<Longrightarrow> plain c" by blast
qed

lemma b64_encode_trim [simp]: "TrimSpace (b64_encode bs) = b64_encode bs"
  by (intro TrimSpace_plain ballI b64_encode_plain)

lemma b64_encode_Nil_iff [simp]: "b64_encode bs = [] \<longleftrightarrow> bs = []"
  by (cases bs rule: b64_encode.cases) simp_all

end
