(* ===== verification/Json.thy ===== *)
theory Json
  imports Codec "HOL-Library.List_Lexorder" "HOL-Library.Char_ord"
begin

text \<open>
  Go's \<open>encoding/json\<close>, as far as the program uses it: a value type, the printer behind
  \<open>json.Marshal\<close> and \<open>Encoder.Encode\<close> (with HTML escaping, which is the default), and the
  parser behind \<open>json.Unmarshal\<close> and \<open>Decoder.Decode\<close>. A number is kept as its literal text,
  as the decoder does until it knows the target type. The parser is a lexer followed by a
  pushdown automaton over the tokens with an explicit stack, bounded by the decoder's nesting
  limit of 10000. \<open>json_roundtrip\<close> (at the end) says that parsing what was printed gives the
  value back.
\<close>

datatype json =
    JNull
  | JBool bool
  | JNum string
  | JStr string
  | JArr "json list"
  | JObj "(string \<times> json) list"

text \<open>A Go map is printed with its keys in increasing order.\<close>

definition jmap :: "(string \<times> json) list \<Rightarrow> json" where
  "jmap kvs = JObj (sort_key fst kvs)"

definition jint :: "int \<Rightarrow> json" where
  "jint i = JNum (FormatInt i)"

subsection \<open>UTF-8\<close>

definition is_cont :: "char \<Rightarrow> bool" where
  "is_cont c \<longleftrightarrow> 128 \<le> code c \<and> code c \<le> (191::nat)"

text \<open>The length of the well-formed UTF-8 sequence at the head of a string, if there is one.\<close>

definition rune_width :: "string \<Rightarrow> nat option" where
  "rune_width s =
     (case s of
        [] \<Rightarrow> None
      | c # r \<Rightarrow>
         (let b = (code c :: nat); x = (if r = [] then 0 else (code (hd r) :: nat));
              conts = (\<lambda>k. k \<le> length r \<and> list_all is_cont (take k r))
          in if b < 128 then Some 1
             else if 194 \<le> b \<and> b \<le> 223 \<and> conts 1 then Some 2
             else if 224 \<le> b \<and> b \<le> 239 \<and> conts 2 \<and> (b = 224 \<longrightarrow> 160 \<le> x) \<and> (b = 237 \<longrightarrow> x \<le> 159)
             then Some 3
             else if 240 \<le> b \<and> b \<le> 244 \<and> conts 3 \<and> (b = 240 \<longrightarrow> 144 \<le> x) \<and> (b = 244 \<longrightarrow> x \<le> 143)
             then Some 4
             else None))"

definition rune_bytes :: "nat \<Rightarrow> string" where
  "rune_bytes n =
     (if n < 128 then [byte n]
      else if n < 2048 then [byte (192 + n div 64), byte (128 + n mod 64)]
      else if n < 65536
      then [byte (224 + n div 4096), byte (128 + n div 64 mod 64), byte (128 + n mod 64)]
      else [byte (240 + n div 262144), byte (128 + n div 4096 mod 64),
            byte (128 + n div 64 mod 64), byte (128 + n mod 64)])"

definition rune_error :: string where
  "rune_error = [byte 239, byte 191, byte 189]"

subsection \<open>Printing\<close>

definition u_escape :: "nat \<Rightarrow> string" where
  "u_escape n = [CHR 0x5C, CHR ''u'', CHR ''0'', CHR ''0'', hex_digit (n div 16), hex_digit (n mod 16)]"

definition escape_ascii :: "char \<Rightarrow> string" where
  "escape_ascii c =
     (if c = CHR 0x22 \<or> c = CHR 0x5C then [CHR 0x5C, c]
      else if c = CHR 0x0A then [CHR 0x5C, CHR ''n'']
      else if c = CHR 0x0D then [CHR 0x5C, CHR ''r'']
      else if c = CHR 0x09 then [CHR 0x5C, CHR ''t'']
      else if code c < (32::nat) \<or> c = CHR ''<'' \<or> c = CHR ''>'' \<or> c = CHR ''&'' then u_escape (code c)
      else [c])"

function escape_string :: "string \<Rightarrow> string" where
  "escape_string s =
     (case s of
        [] \<Rightarrow> []
      | c # cs \<Rightarrow>
         (if code c < (128::nat) then escape_ascii c @ escape_string cs
          else (case rune_width s of
             None \<Rightarrow> [CHR 0x5C] @ ''ufffd'' @ escape_string cs
           | Some w \<Rightarrow>
               (if take 3 s = [byte 226, byte 128, byte 168] then [CHR 0x5C] @ ''u2028'' @ escape_string (drop 3 s)
                else if take 3 s = [byte 226, byte 128, byte 169] then [CHR 0x5C] @ ''u2029'' @ escape_string (drop 3 s)
                else take w s @ escape_string (drop (max w 1) s)))))"
  by pat_completeness auto
termination
  by (relation "measure length") auto

declare escape_string.simps [simp del]

definition quote :: "string \<Rightarrow> string" where
  "quote s = CHR 0x22 # escape_string s @ [CHR 0x22]"

fun json_print :: "json \<Rightarrow> string"
  and print_elems :: "json list \<Rightarrow> string"
  and print_members :: "(string \<times> json) list \<Rightarrow> string" where
  "json_print JNull = ''null''"
| "json_print (JBool b) = (if b then ''true'' else ''false'')"
| "json_print (JNum s) = s"
| "json_print (JStr s) = quote s"
| "json_print (JArr vs) = CHR ''['' # print_elems vs @ '']''"
| "json_print (JObj kvs) = CHR ''{'' # print_members kvs @ ''}''"
| "print_elems [] = []"
| "print_elems [v] = json_print v"
| "print_elems (v # w # vs) = json_print v @ CHR '','' # print_elems (w # vs)"
| "print_members [] = []"
| "print_members [kv] = quote (fst kv) @ CHR '':'' # json_print (snd kv)"
| "print_members (kv # lw # kvs) =
     quote (fst kv) @ CHR '':'' # json_print (snd kv) @ CHR '','' # print_members (lw # kvs)"

text \<open>\<open>Encoder.Encode\<close> ends the value with a newline.\<close>

definition json_encode_line :: "json \<Rightarrow> string" where
  "json_encode_line v = json_print v @ [CHR 0x0A]"

subsection \<open>Lexing\<close>

datatype token =
    TOpenObj | TCloseObj | TOpenArr | TCloseArr | TColon | TComma
  | TStr string | TNum string | TTrue | TFalse | TNull | TErr

text \<open>The code unit of a \<open>\u\<close> escape: four hexadecimal digits.\<close>

definition hex4 :: "string \<Rightarrow> nat option" where
  "hex4 s =
     (case s of
        a # b # c # d # _ \<Rightarrow>
          (case (hex_val a, hex_val b, hex_val c, hex_val d) of
             (Some p, Some q, Some r, Some t) \<Rightarrow> Some (((p * 16 + q) * 16 + r) * 16 + t)
           | _ \<Rightarrow> None)
      | _ \<Rightarrow> None)"

text \<open>The second half of a surrogate pair, if the text continues with one.\<close>

definition low_surrogate :: "string \<Rightarrow> nat option" where
  "low_surrogate s =
     (if take 2 s = [CHR 0x5C, CHR ''u'']
      then (case hex4 (drop 2 s) of
              Some n \<Rightarrow> if 56320 \<le> n \<and> n \<le> 57343 then Some n else None
            | None \<Rightarrow> None)
      else None)"

definition simple_escape :: "char \<Rightarrow> char option" where
  "simple_escape c =
     map_of [(CHR 0x22, CHR 0x22), (CHR 0x5C, CHR 0x5C), (CHR ''/'', CHR ''/''),
             (CHR ''b'', CHR 0x08), (CHR ''f'', CHR 0x0C), (CHR ''n'', CHR 0x0A),
             (CHR ''r'', CHR 0x0D), (CHR ''t'', CHR 0x09)] c"

text \<open>
  One unit of the body of a string literal: the closing quote, or some decoded bytes. Invalid
  UTF-8 and unpaired surrogates decode to the replacement character.
\<close>

datatype str_unit = BadUnit | CloseQuote string | Unit string string

definition u_unit :: "string \<Rightarrow> str_unit" where
  "u_unit ds =
     (case hex4 ds of
        None \<Rightarrow> BadUnit
      | Some n \<Rightarrow>
         (if 55296 \<le> n \<and> n \<le> 57343 then
            (if n \<le> 56319 then
               (case low_surrogate (drop 4 ds) of
                  Some m \<Rightarrow> Unit (rune_bytes ((n - 55296) * 1024 + (m - 56320) + 65536)) (drop 10 ds)
                | None \<Rightarrow> Unit rune_error (drop 4 ds))
             else Unit rune_error (drop 4 ds))
          else Unit (rune_bytes n) (drop 4 ds)))"

definition escape_unit :: "string \<Rightarrow> str_unit" where
  "escape_unit cs =
     (case cs of
        [] \<Rightarrow> BadUnit
      | e # ds \<Rightarrow>
         (case simple_escape e of
            Some x \<Rightarrow> Unit [x] ds
          | None \<Rightarrow> if e = CHR ''u'' then u_unit ds else BadUnit))"

definition lex_unit :: "string \<Rightarrow> str_unit" where
  "lex_unit s =
     (case s of
        [] \<Rightarrow> BadUnit
      | c # cs \<Rightarrow>
         (if c = CHR 0x22 then CloseQuote cs
          else if c = CHR 0x5C then escape_unit cs
          else if code c < (32::nat) then BadUnit
          else if code c < (128::nat) then Unit [c] cs
          else (case rune_width s of
                  None \<Rightarrow> Unit rune_error cs
                | Some w \<Rightarrow> Unit (take w s) (drop (max w 1) s))))"

lemma u_unit_length: "u_unit ds = Unit out r \<Longrightarrow> length r \<le> length ds"
  by (auto simp: u_unit_def split: option.splits if_splits)

lemma escape_unit_length: "escape_unit cs = Unit out r \<Longrightarrow> length r < length cs"
  by (auto simp: escape_unit_def less_Suc_eq_le dest: u_unit_length split: list.splits option.splits if_splits)

lemma lex_unit_length: "lex_unit s = Unit out r \<Longrightarrow> length r < length s"
  by (auto simp: lex_unit_def dest!: escape_unit_length split: list.splits option.splits if_splits)

lemma lex_unit_close_length: "lex_unit s = CloseQuote r \<Longrightarrow> length r < length s"
  by (auto simp: lex_unit_def escape_unit_def u_unit_def split: list.splits option.splits if_splits)

text \<open>The body of a string literal: its decoded bytes, and the text after the closing quote.\<close>

function lex_str :: "string \<Rightarrow> (string \<times> string) option" where
  "lex_str s =
     (case lex_unit s of
        BadUnit \<Rightarrow> None
      | CloseQuote r \<Rightarrow> Some ([], r)
      | Unit out r \<Rightarrow> map_option (\<lambda>(x, t). (out @ x, t)) (lex_str r))"
  by pat_completeness auto
termination
  by (relation "measure length") (auto dest: lex_unit_length)

declare lex_str.simps [simp del]

text \<open>
  A number literal: an optional minus sign, an integer part without leading zeros, an optional
  fraction and an optional exponent. The result is the text after it.
\<close>

definition skip_digits1 :: "string \<Rightarrow> string option" where
  "skip_digits1 s = (if s \<noteq> [] \<and> is_digit (hd s) then Some (dropWhile is_digit s) else None)"

definition skip_int :: "string \<Rightarrow> string option" where
  "skip_int s = (if s \<noteq> [] \<and> hd s = CHR ''0'' then Some (tl s) else skip_digits1 s)"

definition skip_frac :: "string \<Rightarrow> string option" where
  "skip_frac s = (if s \<noteq> [] \<and> hd s = CHR ''.'' then skip_digits1 (tl s) else Some s)"

definition skip_exp :: "string \<Rightarrow> string option" where
  "skip_exp s =
     (if s \<noteq> [] \<and> (hd s = CHR ''e'' \<or> hd s = CHR ''E'')
      then (let t = tl s
            in skip_digits1 (if t \<noteq> [] \<and> (hd t = CHR ''+'' \<or> hd t = CHR ''-'') then tl t else t))
      else Some s)"

definition skip_number :: "string \<Rightarrow> string option" where
  "skip_number s =
     Option.bind (skip_int (if s \<noteq> [] \<and> hd s = CHR ''-'' then tl s else s))
       (\<lambda>t. Option.bind (skip_frac t) skip_exp)"

definition lex_num :: "string \<Rightarrow> (string \<times> string) option" where
  "lex_num s = map_option (\<lambda>r. (take (length s - length r) s, r)) (skip_number s)"

definition punctuation :: "char \<Rightarrow> token option" where
  "punctuation c =
     map_of [(CHR ''{'', TOpenObj), (CHR ''}'', TCloseObj), (CHR ''['', TOpenArr),
             (CHR '']'', TCloseArr), (CHR '':'', TColon), (CHR '','', TComma)] c"

definition is_json_space :: "char \<Rightarrow> bool" where
  "is_json_space c \<longleftrightarrow> c = CHR '' '' \<or> c = CHR 0x09 \<or> c = CHR 0x0D \<or> c = CHR 0x0A"

text \<open>One token and the text after it; \<open>TErr\<close> with no text left stands for a lexical error.\<close>

definition lex1 :: "string \<Rightarrow> token \<times> string" where
  "lex1 s =
     (if s = [] then (TErr, [])
      else case punctuation (hd s) of
        Some t \<Rightarrow> (t, tl s)
      | None \<Rightarrow>
         (if hd s = CHR 0x22 then
            (case lex_str (tl s) of None \<Rightarrow> (TErr, []) | Some (x, r) \<Rightarrow> (TStr x, r))
          else if HasPrefix s ''true'' then (TTrue, drop 4 s)
          else if HasPrefix s ''false'' then (TFalse, drop 5 s)
          else if HasPrefix s ''null'' then (TNull, drop 4 s)
          else if hd s = CHR ''-'' \<or> is_digit (hd s) then
            (case lex_num s of None \<Rightarrow> (TErr, []) | Some (x, r) \<Rightarrow> (TNum x, r))
          else (TErr, [])))"

subsection \<open>Parsing\<close>

datatype frame =
    FArr "json list"                          \<comment> \<open>the elements read so far, last first\<close>
  | FObj "(string \<times> json) list" string       \<comment> \<open>the members read so far, last first, and the pending key\<close>

datatype mode =
    WantValue          \<comment> \<open>a value must come\<close>
  | WantElem           \<comment> \<open>after an opening bracket: a value or the closing bracket\<close>
  | WantKey bool       \<comment> \<open>a key; with \<open>True\<close> the closing brace may come instead\<close>
  | WantColon
  | WantNext           \<comment> \<open>a value of the top frame is complete: a comma or the closing token\<close>

datatype progress = Fail | Done json | Go mode "frame list"

text \<open>A complete value either ends the parse or becomes part of the enclosing container.\<close>

fun supply_value :: "json \<Rightarrow> frame list \<Rightarrow> progress" where
  "supply_value v [] = Done v"
| "supply_value v (FArr vs # st) = Go WantNext (FArr (v # vs) # st)"
| "supply_value v (FObj kvs k # st) = Go WantNext (FObj ((k, v) # kvs) k # st)"

definition max_depth :: nat where
  "max_depth = 10000"

definition open_frame :: "mode \<Rightarrow> frame \<Rightarrow> frame list \<Rightarrow> progress" where
  "open_frame m f st = (if length st < max_depth then Go m (f # st) else Fail)"

fun value_token :: "token \<Rightarrow> frame list \<Rightarrow> progress" where
  "value_token TNull st = supply_value JNull st"
| "value_token TTrue st = supply_value (JBool True) st"
| "value_token TFalse st = supply_value (JBool False) st"
| "value_token (TNum n) st = supply_value (JNum n) st"
| "value_token (TStr s) st = supply_value (JStr s) st"
| "value_token TOpenArr st = open_frame WantElem (FArr []) st"
| "value_token TOpenObj st = open_frame (WantKey True) (FObj [] []) st"
| "value_token _ st = Fail"

fun parse_token :: "token \<Rightarrow> mode \<Rightarrow> frame list \<Rightarrow> progress" where
  "parse_token t WantValue st = value_token t st"
| "parse_token TCloseArr WantElem (FArr vs # st) = supply_value (JArr (rev vs)) st"
| "parse_token t WantElem st = value_token t st"
| "parse_token (TStr k) (WantKey b) (FObj kvs k' # st) = Go WantColon (FObj kvs k # st)"
| "parse_token TCloseObj (WantKey True) (FObj kvs k # st) = supply_value (JObj (rev kvs)) st"
| "parse_token TColon WantColon st = Go WantValue st"
| "parse_token TComma WantNext (FArr vs # st) = Go WantValue (FArr vs # st)"
| "parse_token TCloseArr WantNext (FArr vs # st) = supply_value (JArr (rev vs)) st"
| "parse_token TComma WantNext (FObj kvs k # st) = Go (WantKey False) (FObj kvs k # st)"
| "parse_token TCloseObj WantNext (FObj kvs k # st) = supply_value (JObj (rev kvs)) st"
| "parse_token _ _ _ = Fail"

lemma skip_digits1_length: "skip_digits1 s = Some r \<Longrightarrow> length r < length s"
proof -
  assume "skip_digits1 s = Some r"
  then obtain c cs where "s = c # cs" and "is_digit c" and "r = dropWhile is_digit s"
    by (cases s) (auto simp: skip_digits1_def split: if_splits)
  then show ?thesis using length_dropWhile_le [of is_digit cs] by simp
qed

lemma skip_number_length: "skip_number s = Some r \<Longrightarrow> length r < length s"
proof -
  assume "skip_number s = Some r"
  then obtain t u where t: "skip_int (if s \<noteq> [] \<and> hd s = CHR ''-'' then tl s else s) = Some t"
    and u: "skip_frac t = Some u" and r: "skip_exp u = Some r"
    by (auto simp: skip_number_def bind_eq_Some_conv)
  have "length t < length s"
    using t by (auto simp: skip_int_def dest!: skip_digits1_length split: if_splits)
  moreover have "length u \<le> length t"
    using u by (auto simp: skip_frac_def dest!: skip_digits1_length split: if_splits)
  moreover have "length r \<le> length u"
    using r by (auto simp: skip_exp_def Let_def dest!: skip_digits1_length split: if_splits)
  ultimately show ?thesis by linarith
qed

lemma lex_str_length: "lex_str s = Some (x, r) \<Longrightarrow> length r < length s"
proof (induction s arbitrary: x r rule: lex_str.induct)
  case (1 s)
  show ?case
  proof (cases "lex_unit s")
    case BadUnit
    with "1.prems" show ?thesis by (simp add: lex_str.simps [of s])
  next
    case (CloseQuote t)
    with "1.prems" show ?thesis by (simp add: lex_str.simps [of s] lex_unit_close_length)
  next
    case (Unit out t)
    with "1.prems" obtain y where "lex_str t = Some (y, r)" by (auto simp: lex_str.simps [of s])
    with Unit "1.IH" have "length r < length t" by blast
    with lex_unit_length [OF Unit] show ?thesis by simp
  qed
qed

lemma lex1_length: "s \<noteq> [] \<Longrightarrow> length (snd (lex1 s)) < length s"
proof -
  assume s: "s \<noteq> []"
  show ?thesis
  proof (cases "punctuation (hd s)")
    case (Some t)
    with s show ?thesis by (simp add: lex1_def)
  next
    case None
    have "length r < length s" if "lex_str (tl s) = Some (x, r)" for x r
      using lex_str_length [OF that] s by (simp add: less_imp_diff_less)
    moreover have "length r < length s" if "lex_num s = Some (x, r)" for x r
      using that skip_number_length by (auto simp: lex_num_def)
    ultimately show ?thesis
      using s None by (auto simp: lex1_def split: option.splits)
  qed
qed

text \<open>
  The parser: skip white space, read a token, move the automaton. The result is the first value
  and the text after it.
\<close>

function parse_loop :: "mode \<Rightarrow> frame list \<Rightarrow> string \<Rightarrow> (json \<times> string) option" where
  "parse_loop m st s =
     (let t = dropWhile is_json_space s
      in if t = [] then None
         else (case parse_token (fst (lex1 t)) m st of
             Fail \<Rightarrow> None
           | Done v \<Rightarrow> Some (v, snd (lex1 t))
           | Go m' st' \<Rightarrow> parse_loop m' st' (snd (lex1 t))))"
  by pat_completeness auto
termination
proof (relation "measure (\<lambda>(m, st, s). length s)", simp)
  fix m :: mode and st :: "frame list" and s t :: string and m' st'
  assume "t = dropWhile is_json_space s" and "t \<noteq> []"
  then show "((m', st', snd (lex1 t)), (m, st, s)) \<in> measure (\<lambda>(m, st, s). length s)"
    using lex1_length [of t] length_dropWhile_le [of is_json_space s] by simp
qed

declare parse_loop.simps [simp del]

text \<open>\<open>Decoder.Decode\<close>: the first value of a stream; what follows stays unread.\<close>

definition json_decode_first :: "string \<Rightarrow> json option" where
  "json_decode_first s = map_option fst (parse_loop WantValue [] s)"

text \<open>\<open>json.Unmarshal\<close>: the whole text is one value and white space.\<close>

definition json_parse :: "string \<Rightarrow> json option" where
  "json_parse s =
     (case parse_loop WantValue [] s of
        None \<Rightarrow> None
      | Some (v, r) \<Rightarrow> if dropWhile is_json_space r = [] then Some v else None)"

subsection \<open>Strings round trip\<close>

text \<open>Well-formed UTF-8: a sequence of well-formed code point encodings.\<close>

function valid_utf8 :: "string \<Rightarrow> bool" where
  "valid_utf8 s =
     (s = [] \<or> (case rune_width s of None \<Rightarrow> False | Some w \<Rightarrow> valid_utf8 (drop (max w 1) s)))"
  by pat_completeness auto
termination
  by (relation "measure length") (auto simp: rune_width_def split: list.splits)

declare valid_utf8.simps [simp del]

lemma rune_width_pos: "rune_width s = Some w \<Longrightarrow> 1 \<le> w \<and> w \<le> 4 \<and> w \<le> length s"
  by (auto simp: rune_width_def Let_def split: list.splits if_splits)

lemma rune_width_append: "rune_width s = Some w \<Longrightarrow> rune_width (s @ r) = Some w"
  by (cases s) (auto simp: rune_width_def Let_def split: if_splits)

lemma valid_utf8_ascii: "(\<forall>c \<in> set s. code c < (128::nat)) \<Longrightarrow> valid_utf8 s"
proof (induction s)
  case Nil
  show ?case by (simp add: valid_utf8.simps [of "[]"])
next
  case (Cons c cs)
  then have "rune_width (c # cs) = Some 1" by (simp add: rune_width_def)
  with Cons show ?case by (simp add: valid_utf8.simps [of "c # cs"])
qed

lemma rune_width_ascii: "rune_width (c # cs) = Some w \<Longrightarrow> code c < (128::nat) \<Longrightarrow> w = 1"
  by (simp add: rune_width_def)

lemma lex_unit_escape_ascii:
  assumes "code c < (128::nat)"
  shows "lex_unit (escape_ascii c @ r) = Unit [c] r"
proof -
  have hexes: "hex4 (CHR ''0'' # CHR ''0'' # hex_digit (n div 16) # hex_digit (n mod 16) # r) = Some n"
    if "n < 128" for n
  proof -
    have "n div 16 < 16" and "n mod 16 < 16" using that by linarith+
    moreover have "hex_val (CHR ''0'') = Some 0" by (simp add: hex_val_def)
    ultimately show ?thesis by (simp add: hex4_def)
  qed
  have rune: "rune_bytes (code c) = [c]" using assms by (simp add: rune_bytes_def)
  consider (quote) "c = CHR 0x22 \<or> c = CHR 0x5C" | (nl) "c = CHR 0x0A" | (cr) "c = CHR 0x0D"
    | (tab) "c = CHR 0x09"
    | (ctl) "c \<notin> {CHR 0x22, CHR 0x5C, CHR 0x0A, CHR 0x0D, CHR 0x09}"
        "code c < (32::nat) \<or> c = CHR ''<'' \<or> c = CHR ''>'' \<or> c = CHR ''&''"
    | (plain) "c \<notin> {CHR 0x22, CHR 0x5C, CHR 0x0A, CHR 0x0D, CHR 0x09}"
        "\<not> (code c < (32::nat) \<or> c = CHR ''<'' \<or> c = CHR ''>'' \<or> c = CHR ''&'')"
    by blast
  then show ?thesis
  proof cases
    case ctl
    then have "escape_ascii c = u_escape (code c)" by (auto simp: escape_ascii_def)
    moreover have "u_unit (CHR ''0'' # CHR ''0'' # hex_digit (code c div 16)
        # hex_digit (code c mod 16) # r) = Unit [c] r"
      using hexes [OF assms] rune assms by (simp add: u_unit_def)
    ultimately show ?thesis
      by (simp add: u_escape_def lex_unit_def escape_unit_def simple_escape_def)
  next
    case plain
    then have "escape_ascii c = [c]" by (auto simp: escape_ascii_def)
    with plain assms show ?thesis by (auto simp: lex_unit_def)
  qed (auto simp: escape_ascii_def lex_unit_def escape_unit_def simple_escape_def)
qed

lemma line_separator_units:
  "lex_unit (CHR 0x5C # ''u2028'' @ r) = Unit [byte 226, byte 128, byte 168] r"
  "lex_unit (CHR 0x5C # ''u2029'' @ r) = Unit [byte 226, byte 128, byte 169] r"
  by (simp_all add: lex_unit_def escape_unit_def simple_escape_def u_unit_def hex4_def hex_val_def
      rune_bytes_def)

lemma lex_unit_rune:
  assumes "rune_width p = Some w" and "length p = w" and "\<not> code (hd p) < (128::nat)"
  shows "lex_unit (p @ r) = Unit p r"
proof (cases p)
  case Nil
  with assms show ?thesis by (simp add: rune_width_def)
next
  case (Cons c cs)
  have "rune_width (c # cs @ r) = Some w" using rune_width_append [OF assms(1), of r] Cons by simp
  moreover have "c \<noteq> CHR 0x22" and "c \<noteq> CHR 0x5C" and "\<not> code c < (32::nat)"
    using assms(3) Cons by auto
  ultimately show ?thesis using assms Cons by (auto simp: lex_unit_def)
qed

lemma lex_str_Unit: "lex_unit s = Unit out r \<Longrightarrow> lex_str r = Some (x, t) \<Longrightarrow> lex_str s = Some (out @ x, t)"
  by (simp add: lex_str.simps [of s])

lemma lex_str_escape:
  "valid_utf8 s \<Longrightarrow> lex_str (escape_string s @ CHR 0x22 # r) = Some (s, r)"
proof (induction s rule: escape_string.induct)
  case (1 s)
  show ?case
  proof (cases s)
    case Nil
    have "lex_unit (CHR 0x22 # r) = CloseQuote r" by (simp add: lex_unit_def)
    then have "lex_str (CHR 0x22 # r) = Some ([], r)" by (simp add: lex_str.simps [of "CHR 0x22 # r"])
    with Nil show ?thesis by (simp add: escape_string.simps [of "[]"])
  next
    case (Cons c cs)
    with "1.prems" obtain w where w: "rune_width s = Some w" and v: "valid_utf8 (drop (max w 1) s)"
      by (auto simp: valid_utf8.simps [of "c # cs"] split: option.splits)
    have wpos: "1 \<le> w" "w \<le> length s" and wmax: "max w 1 = w"
      using rune_width_pos [OF w] by simp_all
    show ?thesis
    proof (cases "code c < (128::nat)")
      case True
      with w Cons rune_width_ascii have "w = 1" by blast
      with v Cons True "1.IH"(1) have "lex_str (escape_string cs @ CHR 0x22 # r) = Some (cs, r)"
        by simp
      with lex_str_Unit [OF lex_unit_escape_ascii [OF True]] Cons True show ?thesis
        by (subst escape_string.simps) simp
    next
      case False
      let ?ls = "[byte 226, byte 128, byte 168]" and ?ps = "[byte 226, byte 128, byte 169]"
      have sep: "w = 3" if "take 3 s = [byte 226, byte 128, x]" for x
      proof -
        from that obtain y ys where "s = byte 226 # byte 128 # y # ys"
          by (cases s; cases "tl s"; cases "tl (tl s)") (auto simp: numeral_3_eq_3)
        with w show ?thesis by (auto simp: rune_width_def Let_def split: if_splits)
      qed
      have whole: "take 3 s @ drop 3 s = s" by simp
      show ?thesis
      proof (cases "take 3 s = ?ls \<or> take 3 s = ?ps")
        case True
        then have "w = 3" using sep by blast
        with v wmax have v3: "valid_utf8 (drop 3 s)" by simp
        from True show ?thesis
        proof
          assume ls: "take 3 s = ?ls"
          with "1.IH"(3) [OF Cons False w] v3
          have "lex_str (escape_string (drop 3 s) @ CHR 0x22 # r) = Some (drop 3 s, r)" by blast
          from lex_str_Unit [OF line_separator_units(1) this] ls whole Cons False w show ?thesis
            by (subst escape_string.simps) simp
        next
          assume ps: "take 3 s = ?ps"
          with "1.IH"(4) [OF Cons False w] v3
          have "lex_str (escape_string (drop 3 s) @ CHR 0x22 # r) = Some (drop 3 s, r)" by simp
          from lex_str_Unit [OF line_separator_units(2) this] ps whole Cons False w show ?thesis
            by (subst escape_string.simps) simp
        qed
      next
        case sepF: False
        with "1.IH"(5) [OF Cons False w] v
        have "lex_str (escape_string (drop (max w 1) s) @ CHR 0x22 # r) = Some (drop (max w 1) s, r)"
          by blast
        then have IH: "lex_str (escape_string (drop w s) @ CHR 0x22 # r) = Some (drop w s, r)"
          unfolding wmax .
        have "rune_width (take w s) = Some w"
          using w Cons wpos by (auto simp: rune_width_def Let_def take_Cons' split: if_splits)
        moreover have "hd (take w s) = c" and "length (take w s) = w"
          using wpos Cons by (simp_all add: take_Cons')
        ultimately have "lex_unit (take w s @ escape_string (drop w s) @ CHR 0x22 # r)
            = Unit (take w s) (escape_string (drop w s) @ CHR 0x22 # r)"
          using False by (intro lex_unit_rune) simp_all
        from lex_str_Unit [OF this IH] sepF Cons False w wmax show ?thesis
          by (subst escape_string.simps) auto
      qed
    qed
  qed
qed

subsection \<open>Numbers round trip\<close>

text \<open>A text after which a number literal ends.\<close>

definition ends_number :: "string \<Rightarrow> bool" where
  "ends_number r \<longleftrightarrow> r = [] \<or> (\<not> is_digit (hd r) \<and> hd r \<notin> {CHR ''.'', CHR ''e'', CHR ''E''})"

definition valid_number :: "string \<Rightarrow> bool" where
  "valid_number s \<longleftrightarrow> skip_number s = Some []"

lemma dropWhile_digits_append:
  "ends_number r \<Longrightarrow> dropWhile is_digit (s @ r) = dropWhile is_digit s @ r"
  by (induction s) (auto simp: ends_number_def dropWhile_eq_self_iff)

lemma skip_digits1_append:
  "skip_digits1 s = Some t \<Longrightarrow> ends_number r \<Longrightarrow> skip_digits1 (s @ r) = Some (t @ r)"
  by (auto simp: skip_digits1_def dropWhile_digits_append split: if_splits)

lemma skip_int_append:
  "skip_int s = Some t \<Longrightarrow> ends_number r \<Longrightarrow> skip_int (s @ r) = Some (t @ r)"
  by (cases "s = []") (auto simp: skip_int_def skip_digits1_append skip_digits1_def
      dropWhile_digits_append split: if_splits)

lemma skip_frac_append:
  "skip_frac s = Some t \<Longrightarrow> ends_number r \<Longrightarrow> skip_frac (s @ r) = Some (t @ r)"
  by (cases s) (auto simp: skip_frac_def skip_digits1_append ends_number_def split: if_splits)

lemma skip_exp_append:
  assumes "skip_exp s = Some t" and "ends_number r"
  shows "skip_exp (s @ r) = Some (t @ r)"
proof (cases s)
  case Nil
  with assms show ?thesis by (auto simp: skip_exp_def ends_number_def)
next
  case (Cons c cs)
  have "cs \<noteq> []" if "skip_digits1 (if cs \<noteq> [] \<and> (hd cs = CHR ''+'' \<or> hd cs = CHR ''-'') then tl cs else cs) = Some u" for u
    using that by (auto simp: skip_digits1_def)
  with Cons assms show ?thesis
    by (auto simp: skip_exp_def Let_def skip_digits1_append split: if_splits)
qed

lemma skip_number_append:
  assumes "skip_number s = Some t" and "ends_number r"
  shows "skip_number (s @ r) = Some (t @ r)"
proof -
  let ?b = "\<lambda>s. if s \<noteq> [] \<and> hd s = CHR ''-'' then tl s else s"
  from assms(1) obtain u v where u: "skip_int (?b s) = Some u"
    and v: "skip_frac u = Some v" and t: "skip_exp v = Some t"
    by (auto simp: skip_number_def bind_eq_Some_conv)
  from u have "s \<noteq> []" by (auto simp: skip_int_def skip_digits1_def)
  then have "?b (s @ r) = ?b s @ r" by simp
  with skip_int_append [OF u assms(2)] skip_frac_append [OF v assms(2)] skip_exp_append [OF t assms(2)]
  show ?thesis by (simp add: skip_number_def)
qed

lemma lex_num_valid: "valid_number s \<Longrightarrow> ends_number r \<Longrightarrow> lex_num (s @ r) = Some (s, r)"
  using skip_number_append [of s "[]" r] by (simp add: valid_number_def lex_num_def)

lemma skip_number_head:
  "skip_number s = Some t \<Longrightarrow> s \<noteq> [] \<and> (hd s = CHR ''-'' \<or> is_digit (hd s))"
  by (auto simp: skip_number_def skip_int_def skip_digits1_def is_digit_def bind_eq_Some_conv split: if_splits)

lemma nat_digits_lead: "0 < n \<Longrightarrow> hd (nat_digits n) \<noteq> CHR ''0''"
proof (induction n rule: nat_digits.induct)
  case (1 n)
  show ?case
  proof (cases "n < 10")
    case True
    have "digit_char n \<noteq> CHR ''0''"
    proof
      assume "digit_char n = CHR ''0''"
      then have "code (digit_char n) = (48::nat)" by simp
      with True "1.prems" show False by (simp add: digit_char_def)
    qed
    with True show ?thesis by (simp add: nat_digits.simps [of n])
  next
    case False
    with 1 show ?thesis by (simp add: nat_digits.simps [of n])
  qed
qed

lemma skip_int_nat_digits: "skip_int (nat_digits n) = Some []"
proof (cases "n = 0")
  case True
  then show ?thesis by (simp add: nat_digits.simps [of 0] skip_int_def digit_char_def char_of_eq_iff)
next
  case False
  then have "hd (nat_digits n) \<noteq> CHR ''0''" using nat_digits_lead by blast
  moreover have "dropWhile is_digit (nat_digits n) = []"
    using set_nat_digits [of n] by (auto simp: dropWhile_eq_Nil_conv)
  ultimately show ?thesis using hd_nat_digits [of n] by (simp add: skip_int_def skip_digits1_def)
qed

lemma valid_number_FormatInt [simp]: "valid_number (FormatInt i)"
proof -
  have "hd (nat_digits n) \<noteq> CHR ''-''" for n
    using hd_nat_digits [of n] by (auto simp: is_digit_def)
  then show ?thesis
    by (auto simp: valid_number_def skip_number_def FormatInt_def skip_int_nat_digits skip_frac_def skip_exp_def)
qed

subsection \<open>Values round trip\<close>

text \<open>A value the printer can meet: well-formed strings and numbers, bounded nesting.\<close>

fun json_wf :: "json \<Rightarrow> bool" where
  "json_wf (JNum s) = valid_number s"
| "json_wf (JStr s) = valid_utf8 s"
| "json_wf (JArr vs) = (\<forall>v \<in> set vs. json_wf v)"
| "json_wf (JObj kvs) = (\<forall>kv \<in> set kvs. valid_utf8 (fst kv) \<and> json_wf (snd kv))"
| "json_wf _ = True"

fun json_depth :: "json \<Rightarrow> nat" where
  "json_depth (JArr vs) = Suc (fold max (map json_depth vs) 0)"
| "json_depth (JObj kvs) = Suc (fold max (map (\<lambda>kv. json_depth (snd kv)) kvs) 0)"
| "json_depth _ = 0"

lemma fold_max_ge: "(a::nat) \<le> fold max xs a \<and> (\<forall>x \<in> set xs. x \<le> fold max xs a)"
  by (induction xs arbitrary: a) (auto intro: order_trans max.cobounded1 max.cobounded2,
      (metis max.bounded_iff)+)

definition resume :: "progress \<Rightarrow> string \<Rightarrow> (json \<times> string) option" where
  "resume p r =
     (case p of Fail \<Rightarrow> None | Done v \<Rightarrow> Some (v, r) | Go m st \<Rightarrow> parse_loop m st r)"

lemma parse_loop_token:
  assumes "s \<noteq> []" and "\<not> is_json_space (hd s)" and "lex1 s = (t, r)"
  shows "parse_loop m st s = resume (parse_token t m st) r"
proof -
  have "dropWhile is_json_space s = s" using assms by (simp add: dropWhile_eq_self_iff)
  with assms show ?thesis
    by (simp add: parse_loop.simps [of m st s] resume_def Let_def split: progress.split)
qed

lemma lex1_punct:
  "lex1 (CHR ''{'' # r) = (TOpenObj, r)" "lex1 (CHR ''}'' # r) = (TCloseObj, r)"
  "lex1 (CHR ''['' # r) = (TOpenArr, r)" "lex1 (CHR '']'' # r) = (TCloseArr, r)"
  "lex1 (CHR '':'' # r) = (TColon, r)" "lex1 (CHR '','' # r) = (TComma, r)"
  by (simp_all add: lex1_def punctuation_def)

lemma lex1_quote: "valid_utf8 s \<Longrightarrow> lex1 (quote s @ r) = (TStr s, r)"
  by (simp add: lex1_def punctuation_def quote_def lex_str_escape)

lemma lex1_words:
  "lex1 (''null'' @ r) = (TNull, r)" "lex1 (''true'' @ r) = (TTrue, r)"
  "lex1 (''false'' @ r) = (TFalse, r)"
  by (simp_all add: lex1_def punctuation_def HasPrefix_def)

lemma not_space_digit: "is_digit c \<Longrightarrow> \<not> is_json_space c"
  by (auto simp: is_digit_def is_json_space_def)

lemma lex1_number:
  assumes "valid_number s" and "ends_number r"
  shows "lex1 (s @ r) = (TNum s, r)" and "s \<noteq> []" and "\<not> is_json_space (hd s)" and "hd s \<noteq> CHR '']''"
proof -
  have h: "s \<noteq> []" "hd s = CHR ''-'' \<or> is_digit (hd s)"
    using assms(1) skip_number_head unfolding valid_number_def by blast+
  then show "s \<noteq> []" and "\<not> is_json_space (hd s)"
    using not_space_digit by (auto simp: is_json_space_def)
  from h(2) show "hd s \<noteq> CHR '']''" by (auto simp: is_digit_def)
  have ne: "hd s \<notin> {CHR ''{'', CHR ''}'', CHR ''['', CHR '']'', CHR '':'', CHR '','', CHR 0x22, CHR ''t'', CHR ''f'', CHR ''n''}"
    using h(2) by (auto simp: is_digit_def)
  then have "punctuation (hd s) = None" and "hd s \<noteq> CHR 0x22" by (auto simp: punctuation_def)
  moreover have "\<not> HasPrefix (s @ r) ''true''" "\<not> HasPrefix (s @ r) ''false''" "\<not> HasPrefix (s @ r) ''null''"
    using ne h(1) by (auto simp: HasPrefix_def neq_Nil_conv)
  ultimately show "lex1 (s @ r) = (TNum s, r)"
    using h lex_num_valid [OF assms] by (simp add: lex1_def)
qed

lemma json_print_head:
  assumes "json_wf v"
  shows "json_print v \<noteq> [] \<and> \<not> is_json_space (hd (json_print v)) \<and> hd (json_print v) \<noteq> CHR '']''"
proof (cases v)
  case (JNum s)
  with assms lex1_number [of s "[]"] show ?thesis by (simp add: ends_number_def)
qed (simp_all add: quote_def is_json_space_def)

lemma lex1_close_head: "fst (lex1 s) = TCloseArr \<Longrightarrow> hd s = CHR '']''"
  by (auto simp: lex1_def punctuation_def split: if_splits option.splits prod.splits)

lemma want_elem_value:
  assumes "s \<noteq> []" and "\<not> is_json_space (hd s)" and "hd s \<noteq> CHR '']''"
  shows "parse_loop WantElem (FArr us # st) s = parse_loop WantValue (FArr us # st) s"
proof -
  obtain t r where l: "lex1 s = (t, r)" by (cases "lex1 s")
  with assms(3) lex1_close_head [of s] have "t \<noteq> TCloseArr" by auto
  then have "parse_token t WantElem (FArr us # st) = parse_token t WantValue (FArr us # st)"
    by (cases t) simp_all
  with parse_loop_token [OF assms(1,2) l] show ?thesis by simp
qed

lemma parse_punct:
  "parse_loop WantNext (FArr us # st) (CHR '','' # r) = parse_loop WantValue (FArr us # st) r"
  "parse_loop WantNext (FArr us # st) (CHR '']'' # r) = resume (supply_value (JArr (rev us)) st) r"
  "parse_loop WantElem (FArr us # st) (CHR '']'' # r) = resume (supply_value (JArr (rev us)) st) r"
  "parse_loop WantNext (FObj ms k # st) (CHR '','' # r) = parse_loop (WantKey False) (FObj ms k # st) r"
  "parse_loop WantNext (FObj ms k # st) (CHR ''}'' # r) = resume (supply_value (JObj (rev ms)) st) r"
  "parse_loop (WantKey True) (FObj ms k # st) (CHR ''}'' # r) = resume (supply_value (JObj (rev ms)) st) r"
  "parse_loop WantColon st' (CHR '':'' # r) = parse_loop WantValue st' r"
  by (simp_all add: parse_loop_token [OF _ _ lex1_punct(6)] parse_loop_token [OF _ _ lex1_punct(4)]
      parse_loop_token [OF _ _ lex1_punct(2)] parse_loop_token [OF _ _ lex1_punct(5)]
      is_json_space_def) (simp_all add: resume_def)

lemma parse_open:
  "length st < max_depth \<Longrightarrow>
     parse_loop WantValue st (CHR ''['' # r) = parse_loop WantElem (FArr [] # st) r"
  "length st < max_depth \<Longrightarrow>
     parse_loop WantValue st (CHR ''{'' # r) = parse_loop (WantKey True) (FObj [] [] # st) r"
  by (simp_all add: parse_loop_token [OF _ _ lex1_punct(3)] parse_loop_token [OF _ _ lex1_punct(1)]
      is_json_space_def open_frame_def) (simp_all add: resume_def)

lemma parse_key:
  assumes "valid_utf8 k"
  shows "parse_loop (WantKey b) (FObj ms k' # st) (quote k @ CHR '':'' # r)
    = parse_loop WantValue (FObj ms k # st) r"
proof -
  have "quote k @ CHR '':'' # r \<noteq> []" and "\<not> is_json_space (hd (quote k @ CHR '':'' # r))"
    by (simp_all add: quote_def is_json_space_def)
  from parse_loop_token [OF this lex1_quote [OF assms]]
  have "parse_loop (WantKey b) (FObj ms k' # st) (quote k @ CHR '':'' # r)
      = parse_loop WantColon (FObj ms k # st) (CHR '':'' # r)" by (simp add: resume_def)
  also have "\<dots> = parse_loop WantValue (FObj ms k # st) r" by (rule parse_punct)
  finally show ?thesis .
qed

lemma ends_number_punct [simp]:
  "ends_number (CHR '','' # r)" "ends_number (CHR '']'' # r)" "ends_number (CHR ''}'' # r)"
  "ends_number []" "ends_number (CHR 0x0A # r)"
  by (simp_all add: ends_number_def is_digit_def)

lemma parse_print:
  "json_wf v \<Longrightarrow> json_depth v + length st \<le> max_depth \<Longrightarrow> ends_number r \<Longrightarrow>
     parse_loop WantValue st (json_print v @ r) = resume (supply_value v st) r"
  "vs \<noteq> [] \<Longrightarrow> (\<forall>v \<in> set vs. json_wf v \<and> json_depth v + Suc (length st) \<le> max_depth) \<Longrightarrow>
     parse_loop WantValue (FArr us # st) (print_elems vs @ CHR '']'' # r)
     = resume (supply_value (JArr (rev us @ vs)) st) r"
  "kvs \<noteq> [] \<Longrightarrow> (\<forall>kv \<in> set kvs. valid_utf8 (fst kv) \<and> json_wf (snd kv)
       \<and> json_depth (snd kv) + Suc (length st) \<le> max_depth) \<Longrightarrow>
     parse_loop (WantKey b) (FObj ms k # st) (print_members kvs @ CHR ''}'' # r)
     = resume (supply_value (JObj (rev ms @ kvs)) st) r"
proof (induction v and vs and kvs arbitrary: st r and us st r and b ms k st r
    rule: json_print_print_elems_print_members.induct)
  case 1
  have "lex1 (CHR ''n'' # CHR ''u'' # CHR ''l'' # CHR ''l'' # r) = (TNull, r)"
    using lex1_words(1) [of r] by simp
  from parse_loop_token [OF _ _ this] show ?case by (simp add: is_json_space_def)
next
  case (2 b)
  show ?case
  proof (cases b)
    case True
    have "lex1 (CHR ''t'' # CHR ''r'' # CHR ''u'' # CHR ''e'' # r) = (TTrue, r)"
      using lex1_words(2) [of r] by simp
    from parse_loop_token [OF _ _ this] True show ?thesis by (simp add: is_json_space_def)
  next
    case False
    have "lex1 (CHR ''f'' # CHR ''a'' # CHR ''l'' # CHR ''s'' # CHR ''e'' # r) = (TFalse, r)"
      using lex1_words(3) [of r] by simp
    from parse_loop_token [OF _ _ this] False show ?thesis by (simp add: is_json_space_def)
  qed
next
  case (3 s)
  then have "valid_number s" by simp
  from lex1_number [OF this \<open>ends_number r\<close>]
  have "s @ r \<noteq> []" "\<not> is_json_space (hd (s @ r))" "lex1 (s @ r) = (TNum s, r)" by simp_all
  from parse_loop_token [OF this] show ?case by simp
next
  case (4 s)
  then have "valid_utf8 s" by simp
  from lex1_quote [OF this]
  have "quote s @ r \<noteq> []" "\<not> is_json_space (hd (quote s @ r))" "lex1 (quote s @ r) = (TStr s, r)"
    by (simp_all add: quote_def is_json_space_def)
  from parse_loop_token [OF this] show ?case by simp
next
  case (5 vs)
  have depth: "length st < max_depth"
    and inner: "\<forall>v \<in> set vs. json_wf v \<and> json_depth v + Suc (length st) \<le> max_depth"
    using "5.prems" fold_max_ge [of 0 "map json_depth vs"] by fastforce+
  show ?case
  proof (cases vs)
    case Nil
    with depth show ?thesis by (simp add: parse_open parse_punct)
  next
    case (Cons w ws)
    then have "print_elems vs = json_print w @ drop (length (json_print w)) (print_elems vs)"
      by (cases ws) simp_all
    moreover have "json_wf w" using inner Cons by simp
    ultimately have head: "print_elems vs \<noteq> []" "\<not> is_json_space (hd (print_elems vs))"
      "hd (print_elems vs) \<noteq> CHR '']''"
      using json_print_head [of w] by (metis append_is_Nil_conv hd_append2)+
    have "parse_loop WantValue st (json_print (JArr vs) @ r)
        = parse_loop WantElem (FArr [] # st) (print_elems vs @ CHR '']'' # r)"
      using depth by (simp add: parse_open)
    also have "\<dots> = parse_loop WantValue (FArr [] # st) (print_elems vs @ CHR '']'' # r)"
      using head by (intro want_elem_value) simp_all
    also have "\<dots> = resume (supply_value (JArr vs) st) r"
      using "5.IH" [of st "[]" r] Cons inner by simp
    finally show ?thesis .
  qed
next
  case (6 kvs)
  have depth: "length st < max_depth"
    and inner: "\<forall>kv \<in> set kvs. valid_utf8 (fst kv) \<and> json_wf (snd kv)
       \<and> json_depth (snd kv) + Suc (length st) \<le> max_depth"
    using "6.prems" fold_max_ge [of 0 "map (\<lambda>kv. json_depth (snd kv)) kvs"] by fastforce+
  show ?case
  proof (cases "kvs = []")
    case True
    with depth show ?thesis by (simp add: parse_open parse_punct)
  next
    case False
    with "6.IH" [of st True "[]" "[]" r] inner depth show ?thesis by (simp add: parse_open)
  qed
next
  case (8 v)
  then show ?case by (simp add: parse_punct resume_def)
next
  case (9 v w vs)
  then have "parse_loop WantValue (FArr us # st) (json_print v @ CHR '','' # print_elems (w # vs) @ CHR '']'' # r)
      = parse_loop WantNext (FArr (v # us) # st) (CHR '','' # print_elems (w # vs) @ CHR '']'' # r)"
    by (simp add: resume_def)
  with 9 show ?case by (simp add: parse_punct)
next
  case (11 kv)
  then show ?case by (simp add: parse_key parse_punct resume_def)
next
  case (12 kv lw kvs)
  then have "parse_loop WantValue (FObj ms (fst kv) # st) (json_print (snd kv) @ CHR '','' # print_members (lw # kvs) @ CHR ''}'' # r)
      = parse_loop WantNext (FObj ((fst kv, snd kv) # ms) (fst kv) # st) (CHR '','' # print_members (lw # kvs) @ CHR ''}'' # r)"
    by (simp add: resume_def)
  with 12 show ?case by (simp add: parse_key parse_punct)
qed simp_all

theorem json_roundtrip_first:
  assumes "json_wf v" and "json_depth v \<le> max_depth" and "ends_number r"
  shows "json_decode_first (json_print v @ r) = Some v"
  using parse_print(1) [of v "[]" r] assms by (simp add: json_decode_first_def resume_def)

theorem json_roundtrip:
  assumes "json_wf v" and "json_depth v \<le> max_depth"
  shows "json_parse (json_print v) = Some v"
  using parse_print(1) [of v "[]" "[]"] assms by (simp add: json_parse_def resume_def)

end
