(* ===== verification/Http.thy ===== *)
theory Http
  imports Json
begin

text \<open>
  What the handlers of both services share: a request as they see it, a response as they write
  it, and the rules by which \<open>encoding/json\<close> fills Go values from a parsed document (field names
  match up to case, \<open>null\<close> leaves a field as it is, unknown fields are skipped, a value of the
  wrong type makes the whole call fail).
\<close>

text \<open>\<open>path\<close> is \<open>r.URL.Path\<close>, decoded; \<open>raw_path\<close> is \<open>r.URL.RawPath\<close>, the path as it was sent, and empty
  when it is the usual encoding of \<open>path\<close>.\<close>

record http_request =
  http_method :: string
  path :: string
  raw_path :: string
  authorization :: string      \<comment> \<open>the \<open>Authorization\<close> header, empty when it is absent\<close>
  body :: string

record http_response =
  status :: int
  headers :: "(string \<times> string) list"
  content :: string

text \<open>\<open>url.PathUnescape\<close>: no value where a percent sign is not followed by two hexadecimal digits.\<close>

fun PathUnescape :: "string \<Rightarrow> string option" where
  "PathUnescape [] = Some []"
| "PathUnescape (c # cs) =
     (if c = CHR ''%''
      then (case cs of
              a # b # rest \<Rightarrow>
                (case (hex_val a, hex_val b, PathUnescape rest) of
                   (Some h, Some l, Some s) \<Rightarrow> Some (byte (16 * h + l) # s)
                 | _ \<Rightarrow> None)
            | _ \<Rightarrow> None)
      else map_option ((#) c) (PathUnescape cs))"

text \<open>What \<open>net/http\<close> makes of a request line: a raw path decodes to the path.\<close>

definition parsed_path :: "http_request \<Rightarrow> bool" where
  "parsed_path req \<longleftrightarrow> raw_path req = [] \<or> PathUnescape (raw_path req) = Some (path req)"

lemma PathUnescape_prefix:
  "CHR ''%'' \<notin> set p \<Longrightarrow> PathUnescape (p @ s) = map_option ((@) p) (PathUnescape s)"
  by (induction p; cases "PathUnescape s") auto

text \<open>\<open>w.WriteHeader\<close> with nothing else written.\<close>

definition bare :: "int \<Rightarrow> http_response" where
  "bare st = \<lparr>status = st, headers = [], content = []\<rparr>"

text \<open>\<open>http.NotFound\<close>: the answer of a multiplexer to a path it does not know.\<close>

definition http_not_found :: http_response where
  "http_not_found =
     \<lparr>status = 404,
      headers = [(''Content-Type'', ''text/plain; charset=utf-8''), (''X-Content-Type-Options'', ''nosniff'')],
      content = ''404 page not found'' @ [CHR 0x0A]\<rparr>"

definition json_type :: "(string \<times> string) list" where
  "json_type = [(''Content-Type'', ''application/json'')]"

text \<open>A JSON body under a status, with the JSON content type.\<close>

definition reply_json :: "int \<Rightarrow> json \<Rightarrow> http_response" where
  "reply_json st v = \<lparr>status = st, headers = json_type, content = json_encode_line v\<rparr>"

lemma status_bare [simp]: "status (bare c) = c" "content (bare c) = []"
  by (simp_all add: bare_def)

lemma reply_json_sel [simp]: "status (reply_json c v) = c" "content (reply_json c v) = json_encode_line v"
  by (simp_all add: reply_json_def)

lemma bare_neq_reply [simp]: "bare c \<noteq> reply_json d v" "reply_json d v \<noteq> bare c"
  by (simp_all add: bare_def reply_json_def json_type_def)

subsection \<open>Decoding into Go values\<close>

definition same_field :: "string \<Rightarrow> string \<Rightarrow> bool" where
  "same_field name key \<longleftrightarrow> fold_ascii key = fold_ascii name"

fun into_string :: "json \<Rightarrow> string \<Rightarrow> string option" where
  "into_string (JStr s) old = Some s"
| "into_string JNull old = Some old"
| "into_string _ old = None"

fun into_int64 :: "json \<Rightarrow> int \<Rightarrow> int option" where
  "into_int64 (JNum n) old = ParseInt64 n"
| "into_int64 JNull old = Some old"
| "into_int64 _ old = None"

fun into_bool :: "json \<Rightarrow> bool \<Rightarrow> bool option" where
  "into_bool (JBool b) old = Some b"
| "into_bool JNull old = Some old"
| "into_bool _ old = None"

text \<open>An element of a \<open>[]byte\<close> written as an array of numbers.\<close>

fun byte_elem :: "json \<Rightarrow> char option" where
  "byte_elem (JNum n) =
     (case parse_nat n of None \<Rightarrow> None | Some v \<Rightarrow> if v < 256 then Some (byte v) else None)"
| "byte_elem JNull = Some (byte 0)"
| "byte_elem _ = None"

fun all_some :: "'a option list \<Rightarrow> 'a list option" where
  "all_some [] = Some []"
| "all_some (None # xs) = None"
| "all_some (Some x # xs) = map_option ((#) x) (all_some xs)"

text \<open>A \<open>[]byte\<close>: base64 text, an array of small numbers, or \<open>null\<close> for the nil slice.\<close>

fun into_bytes :: "json \<Rightarrow> bytes \<Rightarrow> bytes option" where
  "into_bytes (JStr s) old = b64_decode s"
| "into_bytes (JArr vs) old = all_some (map byte_elem vs)"
| "into_bytes JNull old = Some []"
| "into_bytes _ old = None"

fun into_fields :: "(string \<Rightarrow> json \<Rightarrow> 'a \<Rightarrow> 'a option) \<Rightarrow> (string \<times> json) list \<Rightarrow> 'a \<Rightarrow> 'a option" where
  "into_fields f [] x = Some x"
| "into_fields f ((k, v) # kvs) x = Option.bind (f k v x) (into_fields f kvs)"

definition into_struct :: "(string \<Rightarrow> json \<Rightarrow> 'a \<Rightarrow> 'a option) \<Rightarrow> json \<Rightarrow> 'a \<Rightarrow> 'a option" where
  "into_struct f v x =
     (case v of JObj kvs \<Rightarrow> into_fields f kvs x | JNull \<Rightarrow> Some x | _ \<Rightarrow> None)"

text \<open>Into a nil \<open>map[string]string\<close>; later keys overwrite earlier ones.\<close>

definition into_string_map :: "json \<Rightarrow> (string, string) gomap option" where
  "into_string_map v =
     into_struct (\<lambda>k w m. map_option (\<lambda>s. AList.update k s m) (into_string w [])) v []"

text \<open>Into a nil slice of structs, each starting from its zero value.\<close>

definition into_slice :: "(json \<Rightarrow> 'a \<Rightarrow> 'a option) \<Rightarrow> 'a \<Rightarrow> json \<Rightarrow> 'a list \<Rightarrow> 'a list option" where
  "into_slice f zero v old =
     (case v of JArr vs \<Rightarrow> all_some (map (\<lambda>w. f w zero) vs) | JNull \<Rightarrow> Some [] | _ \<Rightarrow> None)"

lemmas field_eval = same_field_def fold_ascii_plain ascii_lower_def plain_def char_of_eq_iff

lemma all_some_map: "(\<And>x. x \<in> set xs \<Longrightarrow> f x = Some (g x)) \<Longrightarrow> all_some (map f xs) = Some (map g xs)"
  by (induction xs) auto

subsection \<open>Request contexts\<close>

text \<open>The two context keys that the JWT middleware sets; \<open>None\<close> when the middleware did not run.\<close>

record request_context =
  ctx_roles :: "string list option"
  ctx_sub :: "string option"

definition background :: request_context where
  "background = \<lparr>ctx_roles = None, ctx_sub = None\<rparr>"

definition RolesFromContext :: "request_context \<Rightarrow> string list" where
  "RolesFromContext ctx = (case ctx_roles ctx of None \<Rightarrow> [] | Some rs \<Rightarrow> rs)"

definition SubjectFromContext :: "request_context \<Rightarrow> string" where
  "SubjectFromContext ctx = (case ctx_sub ctx of None \<Rightarrow> [] | Some s \<Rightarrow> s)"

definition with_identity :: "string list \<Rightarrow> string \<Rightarrow> request_context \<Rightarrow> request_context" where
  "with_identity roles sub ctx = ctx\<lparr>ctx_roles := Some roles, ctx_sub := Some sub\<rparr>"

text \<open>A handler: it may change the server's state, and has no response when it panics.\<close>

type_synonym 's handler = "request_context \<Rightarrow> http_request \<Rightarrow> 's \<Rightarrow> 's \<times> http_response option"

lemma context_identity [simp]:
  "RolesFromContext (with_identity roles sub ctx) = roles"
  "SubjectFromContext (with_identity roles sub ctx) = sub"
  "RolesFromContext background = []" "SubjectFromContext background = []"
  by (simp_all add: with_identity_def RolesFromContext_def SubjectFromContext_def background_def)

end
