(* ===== verification/AuthPolicy.thy ===== *)
theory AuthPolicy
  imports Http
begin

text \<open>
  The configuration half of \<open>vault-api/middleware/jwt.go\<close>: reading the environment, resolving
  the authentication policy, and the guard \<open>ValidateAuthStartupConfig\<close> that runs before the
  server starts. Logging is left out.
\<close>

subsection \<open>Reading the environment\<close>

fun firstNonEmptyEnv :: "env \<Rightarrow> string list \<Rightarrow> string" where
  "firstNonEmptyEnv getenv [] = []"
| "firstNonEmptyEnv getenv (name # names) =
     (let v = TrimSpace (getenv name) in if v \<noteq> [] then v else firstNonEmptyEnv getenv names)"

definition parseCSVEnv :: "env \<Rightarrow> string \<Rightarrow> string list" where
  "parseCSVEnv getenv name =
     (let v = TrimSpace (getenv name)
      in if v = [] then [] else filter (\<lambda>s. s \<noteq> []) (map TrimSpace (Split1 v (CHR '',''))))"

fun parseCSVEnvFirstNonEmpty :: "env \<Rightarrow> string list \<Rightarrow> string list" where
  "parseCSVEnvFirstNonEmpty getenv [] = []"
| "parseCSVEnvFirstNonEmpty getenv (name # names) =
     (let vals = parseCSVEnv getenv name
      in if vals \<noteq> [] then vals else parseCSVEnvFirstNonEmpty getenv names)"

definition parseCSVEnvDefault :: "env \<Rightarrow> string \<Rightarrow> string list \<Rightarrow> string list" where
  "parseCSVEnvDefault getenv name defaults =
     (let vals = parseCSVEnv getenv name in if vals \<noteq> [] then vals else defaults)"

definition parseIntEnvDefault :: "env \<Rightarrow> string \<Rightarrow> int \<Rightarrow> int" where
  "parseIntEnvDefault getenv name fallback =
     (let v = TrimSpace (getenv name)
      in if v = [] then fallback
         else case ParseInt64 v of
           None \<Rightarrow> fallback
         | Some n \<Rightarrow> if n < 0 then fallback else n)"

definition parseBoolEnvDefault :: "env \<Rightarrow> string \<Rightarrow> bool \<Rightarrow> bool" where
  "parseBoolEnvDefault getenv name fallback =
     (let v = TrimSpace (ToLower (getenv name))
      in if v = [] then fallback
         else case ParseBool v of None \<Rightarrow> fallback | Some b \<Rightarrow> b)"

subsection \<open>Resolving the policy\<close>

record resolvedAuthPolicy =
  Mode :: string
  Source :: string
  EnableTestJWT :: bool
  JWKSRequired :: bool
  EnforceRequiredClaim :: bool
  RequireKid :: bool
  RequireRoles :: bool

definition authPolicyDev :: string where "authPolicyDev = ''dev''"
definition authPolicyJWKSStrict :: string where "authPolicyJWKSStrict = ''jwks_strict''"
definition authPolicyJWKSRBAC :: string where "authPolicyJWKSRBAC = ''jwks_rbac''"

lemmas policy_names = authPolicyDev_def authPolicyJWKSStrict_def authPolicyJWKSRBAC_def

definition isTestJWTAllowedEnv :: "env \<Rightarrow> string \<Rightarrow> bool" where
  "isTestJWTAllowedEnv getenv appEnv \<longleftrightarrow>
     parseBoolEnvDefault getenv ''ALLOW_INSECURE_DEV'' False
     \<or> appEnv \<in> {'''', ''dev'', ''development'', ''local'', ''test'', ''ci''}"

text \<open>The mode and its source before the environment is checked: explicit, or from legacy settings.\<close>

definition requested_mode :: "env \<Rightarrow> string \<Rightarrow> string \<times> string" where
  "requested_mode getenv jwksURL =
     (let mode = ToLower (TrimSpace (getenv ''AUTH_POLICY''))
      in if mode \<noteq> [] then (mode, ''explicit_auth_policy'')
         else let requireRolesLegacy = parseBoolEnvDefault getenv ''JWT_REQUIRE_ROLES'' False;
                  requireKidLegacy = parseBoolEnvDefault getenv ''JWT_REQUIRE_KID'' False;
                  enforceRequiredClaimsLegacy = parseBoolEnvDefault getenv ''JWT_ENFORCE_REQUIRED_CLAIMS'' False;
                  enableTestLegacy = parseBoolEnvDefault getenv ''ENABLE_TEST_JWT'' False
      in if requireRolesLegacy then (authPolicyJWKSRBAC, ''legacy_jwt_require_roles'')
         else if TrimSpace jwksURL \<noteq> [] \<or> requireKidLegacy \<or> enforceRequiredClaimsLegacy
           then (authPolicyJWKSStrict, ''legacy_jwks_settings'')
         else if enableTestLegacy then (authPolicyDev, ''legacy_enable_test_jwt'')
         else (authPolicyJWKSStrict, ''default_strict''))"

definition strict_policy :: "string \<Rightarrow> string \<Rightarrow> resolvedAuthPolicy" where
  "strict_policy source jwksURL =
     \<lparr>Mode = authPolicyJWKSStrict, Source = source, EnableTestJWT = False,
      JWKSRequired = (TrimSpace jwksURL \<noteq> []), EnforceRequiredClaim = True, RequireKid = True,
      RequireRoles = False\<rparr>"

definition resolveAuthPolicy :: "env \<Rightarrow> string \<Rightarrow> string \<Rightarrow> resolvedAuthPolicy" where
  "resolveAuthPolicy getenv appEnv jwksURL =
     (let (mode, source) = requested_mode getenv jwksURL
      in if mode = authPolicyDev then
           (if \<not> isTestJWTAllowedEnv getenv appEnv
            then strict_policy (source @ ''_downgraded_non_dev'') jwksURL
            else \<lparr>Mode = authPolicyDev, Source = source, EnableTestJWT = True, JWKSRequired = False,
                  EnforceRequiredClaim = False, RequireKid = False, RequireRoles = False\<rparr>)
         else if mode = authPolicyJWKSRBAC then
           \<lparr>Mode = authPolicyJWKSRBAC, Source = source, EnableTestJWT = False, JWKSRequired = True,
            EnforceRequiredClaim = True, RequireKid = True, RequireRoles = True\<rparr>
         else if mode = authPolicyJWKSStrict then strict_policy source jwksURL
         else strict_policy ''invalid_auth_policy_default'' jwksURL)"

subsection \<open>The startup guard\<close>

record startupAuthConfig =
  Policy :: resolvedAuthPolicy
  PolicyName :: string
  AppEnv :: string
  Deployment :: string
  AllowInsecureDev :: bool
  IsProdStartup :: bool
  JWKSURL :: string
  JWTIssuer :: string
  JWTAudience :: "string list"
  HasJWKSURL :: bool
  HasJWTIssuer :: bool
  HasJWTAudience :: bool
  HasRequiredJWTVars :: bool

definition read_app_env :: "env \<Rightarrow> string" where
  "read_app_env getenv =
     ToLower (TrimSpace (firstNonEmptyEnv getenv [''ENV'', ''APP_ENV'', ''ENVIRONMENT'', ''DEPLOY_ENV'']))"

definition read_issuer :: "env \<Rightarrow> string" where
  "read_issuer getenv = TrimSpace (firstNonEmptyEnv getenv [''JWT_ISSUER'', ''JWT_REQUIRED_ISSUER''])"

definition read_audience :: "env \<Rightarrow> string list" where
  "read_audience getenv = parseCSVEnvFirstNonEmpty getenv [''JWT_AUDIENCE'', ''JWT_REQUIRED_AUDIENCE'']"

definition loadStartupAuthConfig :: "env \<Rightarrow> startupAuthConfig" where
  "loadStartupAuthConfig getenv =
     (let appEnv = read_app_env getenv;
          deployment = ToLower (TrimSpace (getenv ''DEPLOYMENT''));
          allowInsecureDev = parseBoolEnvDefault getenv ''ALLOW_INSECURE_DEV'' False;
          policyName0 = ToLower (TrimSpace (getenv ''AUTH_POLICY''));
          jwksURL = TrimSpace (getenv ''JWKS_URL'');
          jwtIssuer = read_issuer getenv;
          jwtAudience = read_audience getenv;
          policy = resolveAuthPolicy getenv appEnv jwksURL;
          policyName = (if policyName0 = [] then Mode policy else policyName0);
          isProdStartup = (appEnv = ''prod'' \<or> appEnv = ''production''
                           \<or> deployment = ''prod'' \<or> deployment = ''production'');
          hasJWKSURL = (jwksURL \<noteq> []);
          hasJWTIssuer = (jwtIssuer \<noteq> []);
          hasJWTAudience = (jwtAudience \<noteq> [])
      in \<lparr>Policy = policy, PolicyName = policyName, AppEnv = appEnv, Deployment = deployment,
          AllowInsecureDev = allowInsecureDev, IsProdStartup = isProdStartup, JWKSURL = jwksURL,
          JWTIssuer = jwtIssuer, JWTAudience = jwtAudience, HasJWKSURL = hasJWKSURL,
          HasJWTIssuer = hasJWTIssuer, HasJWTAudience = hasJWTAudience,
          HasRequiredJWTVars = (hasJWKSURL \<and> hasJWTIssuer \<and> hasJWTAudience)\<rparr>)"

datatype startup_error = DevNotAllowed | DevInProduction | MissingJWTVars string

definition ValidateAuthStartupConfig :: "env \<Rightarrow> startup_error + unit" where
  "ValidateAuthStartupConfig getenv =
     (let cfg = loadStartupAuthConfig getenv; mode = Mode (Policy cfg)
      in if mode = authPolicyDev \<and> \<not> (AppEnv cfg = ''dev'' \<or> AllowInsecureDev cfg)
           then Inl DevNotAllowed
         else if IsProdStartup cfg \<and> mode = authPolicyDev then Inl DevInProduction
         else if (mode = authPolicyJWKSStrict \<or> mode = authPolicyJWKSRBAC) \<and> \<not> HasRequiredJWTVars cfg
           then Inl (MissingJWTVars mode)
         else Inr ())"

subsection \<open>Facts about the resolved policy\<close>

lemmas policy_sels = strict_policy_def policy_names

lemma resolve_cases:
  obtains "resolveAuthPolicy g app url =
             \<lparr>Mode = authPolicyDev, Source = snd (requested_mode g url), EnableTestJWT = True,
              JWKSRequired = False, EnforceRequiredClaim = False, RequireKid = False, RequireRoles = False\<rparr>"
          and "isTestJWTAllowedEnv g app" and "fst (requested_mode g url) = authPolicyDev"
  | "resolveAuthPolicy g app url =
       \<lparr>Mode = authPolicyJWKSRBAC, Source = snd (requested_mode g url), EnableTestJWT = False,
        JWKSRequired = True, EnforceRequiredClaim = True, RequireKid = True, RequireRoles = True\<rparr>"
    and "fst (requested_mode g url) = authPolicyJWKSRBAC"
  | src where "resolveAuthPolicy g app url = strict_policy src url"
    and "fst (requested_mode g url) \<noteq> authPolicyJWKSRBAC"
proof (cases "requested_mode g url")
  case (Pair mode source)
  then show thesis
    by (cases "mode = authPolicyDev"; cases "isTestJWTAllowedEnv g app"; cases "mode = authPolicyJWKSRBAC";
        cases "mode = authPolicyJWKSStrict")
      (auto intro: that simp: resolveAuthPolicy_def policy_names)
qed

lemma parseIntEnvDefault_nonneg: "0 \<le> d \<Longrightarrow> 0 \<le> parseIntEnvDefault g k d"
  by (simp add: parseIntEnvDefault_def Let_def split: option.split)

lemma parseIntEnvDefault_range: "in_int64 d \<Longrightarrow> in_int64 (parseIntEnvDefault g k d)"
  by (auto simp: parseIntEnvDefault_def Let_def split: option.split dest: ParseInt64_range)

text \<open>Items read from a comma-separated variable are trimmed and not empty.\<close>

lemma parseCSVEnv_items: "a \<in> set (parseCSVEnv g k) \<Longrightarrow> a \<noteq> [] \<and> TrimSpace a = a"
  by (auto simp: parseCSVEnv_def Let_def split: if_splits)

lemma parseCSVEnvFirst_items: "a \<in> set (parseCSVEnvFirstNonEmpty g ks) \<Longrightarrow> a \<noteq> [] \<and> TrimSpace a = a"
  by (induction ks) (auto simp: Let_def dest: parseCSVEnv_items split: if_splits)

lemma resolve_modes:
  "Mode (resolveAuthPolicy g app url) \<in> {authPolicyDev, authPolicyJWKSStrict, authPolicyJWKSRBAC}"
  by (cases rule: resolve_cases [where g = g and app = app and url = url]) (simp_all add: strict_policy_def)

lemma resolve_flags:
  "EnableTestJWT (resolveAuthPolicy g app url) \<longleftrightarrow> Mode (resolveAuthPolicy g app url) = authPolicyDev"
  "EnforceRequiredClaim (resolveAuthPolicy g app url) \<longleftrightarrow> Mode (resolveAuthPolicy g app url) \<noteq> authPolicyDev"
  "RequireKid (resolveAuthPolicy g app url) \<longleftrightarrow> Mode (resolveAuthPolicy g app url) \<noteq> authPolicyDev"
  "RequireRoles (resolveAuthPolicy g app url) \<longleftrightarrow> Mode (resolveAuthPolicy g app url) = authPolicyJWKSRBAC"
  "EnableTestJWT (resolveAuthPolicy g app url) \<Longrightarrow> \<not> JWKSRequired (resolveAuthPolicy g app url)"
  "EnableTestJWT (resolveAuthPolicy g app url) \<Longrightarrow> isTestJWTAllowedEnv g app"
  by (cases rule: resolve_cases [where g = g and app = app and url = url]; simp add: policy_sels)+

lemma resolve_jwks:
  assumes "\<not> EnableTestJWT (resolveAuthPolicy g app url)" "TrimSpace url \<noteq> []"
  shows "JWKSRequired (resolveAuthPolicy g app url)"
  using assms by (cases rule: resolve_cases [where g = g and app = app and url = url]) (simp_all add: policy_sels)

lemma startup_sels [simp]:
  "Policy (loadStartupAuthConfig g) = resolveAuthPolicy g (read_app_env g) (TrimSpace (g ''JWKS_URL''))"
  "AppEnv (loadStartupAuthConfig g) = read_app_env g"
  "AllowInsecureDev (loadStartupAuthConfig g) = parseBoolEnvDefault g ''ALLOW_INSECURE_DEV'' False"
  "JWKSURL (loadStartupAuthConfig g) = TrimSpace (g ''JWKS_URL'')"
  "JWTIssuer (loadStartupAuthConfig g) = read_issuer g"
  "JWTAudience (loadStartupAuthConfig g) = read_audience g"
  "HasRequiredJWTVars (loadStartupAuthConfig g) \<longleftrightarrow>
     TrimSpace (g ''JWKS_URL'') \<noteq> [] \<and> read_issuer g \<noteq> [] \<and> read_audience g \<noteq> []"
  by (simp_all add: loadStartupAuthConfig_def Let_def)

subsection \<open>What an accepted start guarantees\<close>

text \<open>A production profile, by \<open>ENV\<close> or by \<open>DEPLOYMENT\<close>, that asks for \<open>AUTH_POLICY=dev\<close>.\<close>

definition prod_profile :: "env \<Rightarrow> bool" where
  "prod_profile g \<longleftrightarrow> read_app_env g \<in> {''prod'', ''production''}
     \<or> ToLower (TrimSpace (g ''DEPLOYMENT'')) \<in> {''prod'', ''production''}"

lemma startup_sels_prod [simp]: "IsProdStartup (loadStartupAuthConfig g) \<longleftrightarrow> prod_profile g"
  by (simp add: loadStartupAuthConfig_def Let_def prod_profile_def)

lemma resolve_dev:
  assumes "ToLower (TrimSpace (g ''AUTH_POLICY'')) = ''dev''"
  shows "Mode (resolveAuthPolicy g app url)
    = (if isTestJWTAllowedEnv g app then authPolicyDev else authPolicyJWKSStrict)"
proof -
  have "requested_mode g url = (authPolicyDev, ''explicit_auth_policy'')"
    using assms by (simp add: requested_mode_def Let_def authPolicyDev_def)
  then show ?thesis by (simp add: resolveAuthPolicy_def strict_policy_def)
qed


definition env_of :: "(string \<times> string) list \<Rightarrow> env" where
  "env_of kvs name = (case map_of kvs name of None \<Rightarrow> [] | Some v \<Rightarrow> v)"

definition prod_dev_env :: env where
  "prod_dev_env = env_of [(''ENV'', ''prod''), (''AUTH_POLICY'', ''dev''), (''JWKS_URL'', ''u''),
                          (''JWT_ISSUER'', ''i''), (''JWT_AUDIENCE'', ''a'')]"


end
