(* ===== verification/Jwt.thy ===== *)
theory Jwt
  imports Complex_Main AuthPolicy
begin

text \<open>
  The request half of \<open>vault-api/middleware/jwt.go\<close>: the construction of the middleware (its
  settings and the key set it tries to load), the bearer token, the claims checks and the
  identity handed to the next handler. The key set client (\<open>keyfunc\<close>) and the token library
  (\<open>golang-jwt\<close>) are parameters; what their documentation promises is \<open>documented_jwt_lib\<close>.
\<close>

subsection \<open>Tokens and claims\<close>

text \<open>An \<open>interface{}\<close> inside \<open>jwt.MapClaims\<close>. A float64 is kept as the rational it stands for.\<close>

datatype claim =
    CNil
  | CBool bool
  | CNum rat
  | CStr string
  | CArr "claim list"
  | CStrs "string list"
  | CObj "(string \<times> claim) list"

type_synonym claims = "(string, claim) gomap"

definition claim_string :: "claim option \<Rightarrow> string option" where
  "claim_string c = (case c of Some (CStr s) \<Rightarrow> Some s | _ \<Rightarrow> None)"

definition claim_float :: "claim option \<Rightarrow> rat option" where
  "claim_float c = (case c of Some (CNum q) \<Rightarrow> Some q | _ \<Rightarrow> None)"

record parsed_token =
  tok_valid :: bool
  tok_alg :: string
  tok_kid :: "claim option"      \<comment> \<open>\<open>token.Header["kid"]\<close>\<close>
  tok_claims :: claims

text \<open>The token library; the key set is abstract. \<open>lib_parse\<close> has no value when parsing fails.\<close>

record 'jwks jwt_lib =
  lib_parse :: "'jwks \<Rightarrow> string list \<Rightarrow> string \<Rightarrow> parsed_token option"
  VerifyExpiresAt :: "claims \<Rightarrow> int \<Rightarrow> bool \<Rightarrow> bool"
  VerifyIssuedAt :: "claims \<Rightarrow> int \<Rightarrow> bool \<Rightarrow> bool"
  VerifyNotBefore :: "claims \<Rightarrow> int \<Rightarrow> bool \<Rightarrow> bool"
  VerifyIssuer :: "claims \<Rightarrow> string \<Rightarrow> bool \<Rightarrow> bool"
  VerifyAudience :: "claims \<Rightarrow> string \<Rightarrow> bool \<Rightarrow> bool"

subsection \<open>Roles and the bearer token\<close>

fun hasMinimumRBACRoles :: "string list \<Rightarrow> bool" where
  "hasMinimumRBACRoles [] = False"
| "hasMinimumRBACRoles (role # roles) =
     (role = ''auditor'' \<or> role = ''ingester'' \<or> hasMinimumRBACRoles roles)"

definition parseRoles :: "claims \<Rightarrow> string list" where
  "parseRoles cs =
     (case map_of cs ''roles'' of
        Some (CArr vs) \<Rightarrow> List.map_filter (\<lambda>v. claim_string (Some v)) vs
      | Some (CStrs ss) \<Rightarrow> ss
      | Some (CStr s) \<Rightarrow> [s]
      | _ \<Rightarrow> [])"

definition extractBearerToken :: "string \<Rightarrow> string option" where
  "extractBearerToken auth0 =
     (let auth = TrimSpace auth0
      in if auth = [] then None
         else case SplitN2 auth (CHR '' '') of
                [scheme, rest] \<Rightarrow>
                  if \<not> EqualFold scheme ''Bearer'' then None
                  else let tok = TrimSpace rest in if tok = [] then None else Some tok
              | _ \<Rightarrow> None)"

subsection \<open>Times\<close>

text \<open>Times are nanoseconds since 1970, durations are \<open>int64\<close> nanoseconds.\<close>

definition second_ns :: int where "second_ns = 1000000000"

definition Seconds :: "int \<Rightarrow> int" where
  "Seconds n = wrap64 (n * second_ns)"

definition unix_after :: "int \<Rightarrow> int \<Rightarrow> int" where
  "unix_after now d = (now + d) div second_ns"

text \<open>\<open>int64 (f)\<close>: truncation; out of range the result is up to the implementation (\<open>conv\<close>).\<close>

definition int64_of_float :: "(rat \<Rightarrow> int) \<Rightarrow> rat \<Rightarrow> int" where
  "int64_of_float conv q =
     (let t = (if 0 \<le> q then \<lfloor>q\<rfloor> else \<lceil>q\<rceil>) in if in_int64 t then t else conv q)"

text \<open>
  \<open>time.Unix (s, 0)\<close> keeps the seconds since year 1 in an \<open>int64\<close>; \<open>Sub\<close> multiplies the difference
  by a second, which may wrap, and falls back to the largest or smallest duration when adding the
  result does not lead back.
\<close>

definition time_Unix :: "int \<Rightarrow> int" where
  "time_Unix s = wrap64 (s + 62135596800)"

definition add_sec :: "int \<Rightarrow> int \<Rightarrow> int" where
  "add_sec t d =
     (let s = wrap64 (t + d)
      in if (s > t) = (d > 0) then s else if d > 0 then max_int64 else - max_int64)"

definition time_Sub :: "int \<Rightarrow> int \<Rightarrow> int" where
  "time_Sub t u =
     (let d = wrap64 (wrap64 (t - u) * second_ns)
      in if add_sec u (d div second_ns) = t \<and> d mod second_ns = 0 then d
         else if t < u then min_int64 else max_int64)"

definition validateStandardClaims ::
  "'j jwt_lib \<Rightarrow> (rat \<Rightarrow> int) \<Rightarrow> claims \<Rightarrow> string \<Rightarrow> string list \<Rightarrow> int \<Rightarrow> int \<Rightarrow> int \<Rightarrow> bool" where
  "validateStandardClaims lib conv cs issuer audiences now skew maxTokenTTL =
     (case claim_string (map_of cs ''sub'') of
        None \<Rightarrow> False
      | Some sub \<Rightarrow>
          if TrimSpace sub = [] then False
          else if \<not> VerifyExpiresAt lib cs (unix_after now (wrap64 (- skew))) True then False
          else if \<not> VerifyIssuedAt lib cs (unix_after now skew) False then False
          else if \<not> VerifyNotBefore lib cs (unix_after now skew) False then False
          else if issuer \<noteq> [] \<and> \<not> VerifyIssuer lib cs issuer True then False
          else if audiences \<noteq> [] \<and> \<not> list_ex (\<lambda>aud. VerifyAudience lib cs aud True) audiences then False
          else if maxTokenTTL > 0 then
            (case (claim_float (map_of cs ''iat''), claim_float (map_of cs ''exp'')) of
               (Some issuedAt, Some expiresAt) \<Rightarrow>
                 if expiresAt < issuedAt then False
                 else \<not> time_Sub (time_Unix (int64_of_float conv expiresAt))
                            (time_Unix (int64_of_float conv issuedAt)) > maxTokenTTL
             | _ \<Rightarrow> False)
          else True)"

subsection \<open>The middleware\<close>

record jwt_settings =
  jwt_policy :: resolvedAuthPolicy
  jwt_jwks_url :: string
  jwt_issuer :: string
  jwt_audience :: "string list"
  jwt_algs :: "string list"
  jwt_skew :: int
  jwt_attempts :: int
  jwt_max_ttl :: int
  jwt_config_valid :: bool

definition default_algs :: "string list" where
  "default_algs = [''RS256'', ''RS384'', ''RS512'', ''ES256'', ''ES384'', ''ES512'', ''EdDSA'']"

definition jwt_read_settings :: "env \<Rightarrow> jwt_settings" where
  "jwt_read_settings getenv =
     (let url = TrimSpace (getenv ''JWKS_URL'');
          policy = resolveAuthPolicy getenv (read_app_env getenv) url;
          issuer = read_issuer getenv;
          audience = read_audience getenv
      in \<lparr>jwt_policy = policy, jwt_jwks_url = url, jwt_issuer = issuer, jwt_audience = audience,
          jwt_algs = parseCSVEnvDefault getenv ''JWT_ALLOWED_ALGS'' default_algs,
          jwt_skew = parseIntEnvDefault getenv ''JWT_CLOCK_SKEW_SECONDS'' 60,
          jwt_attempts = parseIntEnvDefault getenv ''JWT_JWKS_MAX_ATTEMPTS'' 12,
          jwt_max_ttl = parseIntEnvDefault getenv ''JWT_MAX_TOKEN_TTL_SECONDS'' 0,
          jwt_config_valid =
            (\<not> (JWKSRequired policy \<and> url = [])
             \<and> \<not> (EnforceRequiredClaim policy \<and> (issuer = [] \<or> audience = [])))\<rparr>)"

text \<open>Attempt \<open>i\<close> of \<open>keyfunc.Get\<close> gives a key set or nil, and an error or none. The loop runs at
  most \<open>n\<close> times; each attempt overwrites the previous key set.\<close>

fun load_jwks :: "(nat \<Rightarrow> 'j option \<times> bool) \<Rightarrow> nat \<Rightarrow> nat \<Rightarrow> 'j option \<Rightarrow> 'j option" where
  "load_jwks fetch i 0 jwks = jwks"
| "load_jwks fetch i (Suc n) jwks =
     (let (got, failed) = fetch i
      in if \<not> failed \<and> got \<noteq> None then got else load_jwks fetch (Suc i) n got)"

definition jwt_load :: "jwt_settings \<Rightarrow> (nat \<Rightarrow> 'j option \<times> bool) \<Rightarrow> 'j option" where
  "jwt_load cfg fetch =
     (if JWKSRequired (jwt_policy cfg) \<and> jwt_jwks_url cfg \<noteq> []
      then load_jwks fetch 0 (nat (jwt_attempts cfg)) None else None)"

definition test_roles :: "string \<Rightarrow> string list" where
  "test_roles tokenStr =
     (let lower = ToLower tokenStr
      in (if Contains lower ''auditor'' then [''auditor''] else [])
         @ (if Contains lower ''ingest'' \<or> Contains lower ''ingester'' then [''ingester''] else []))"

text \<open>The identity of a verified token: its roles and its subject; \<open>None\<close> is a 401.\<close>

definition jwks_identity ::
  "'j jwt_lib \<Rightarrow> (rat \<Rightarrow> int) \<Rightarrow> jwt_settings \<Rightarrow> 'j \<Rightarrow> int \<Rightarrow> string \<Rightarrow> (string list \<times> string) option" where
  "jwks_identity lib conv cfg jwks now tokenStr =
     (case lib_parse lib jwks (jwt_algs cfg) tokenStr of
        None \<Rightarrow> None
      | Some token \<Rightarrow>
          if \<not> tok_valid token then None
          else if RequireKid (jwt_policy cfg)
                  \<and> TrimSpace (case claim_string (tok_kid token) of None \<Rightarrow> [] | Some kid \<Rightarrow> kid) = [] then None
          else if \<not> validateStandardClaims lib conv (tok_claims token) (jwt_issuer cfg) (jwt_audience cfg)
                     now (Seconds (jwt_skew cfg)) (Seconds (jwt_max_ttl cfg)) then None
          else let roles = parseRoles (tok_claims token)
               in if RequireRoles (jwt_policy cfg) \<and> \<not> hasMinimumRBACRoles roles then None
                  else Some (roles, case claim_string (map_of (tok_claims token) ''sub'') of None \<Rightarrow> [] | Some s \<Rightarrow> s))"

definition jwt_identity ::
  "'j jwt_lib \<Rightarrow> (rat \<Rightarrow> int) \<Rightarrow> jwt_settings \<Rightarrow> 'j option \<Rightarrow> int \<Rightarrow> string \<Rightarrow> (string list \<times> string) option" where
  "jwt_identity lib conv cfg loaded now auth =
     (case extractBearerToken auth of
        None \<Rightarrow> None
      | Some tokenStr \<Rightarrow>
          if JWKSRequired (jwt_policy cfg)
             \<and> (\<not> jwt_config_valid cfg \<or> (jwt_jwks_url cfg \<noteq> [] \<and> loaded = None)) then None
          else case loaded of
                 Some jwks \<Rightarrow> jwks_identity lib conv cfg jwks now tokenStr
               | None \<Rightarrow>
                   if \<not> EnableTestJWT (jwt_policy cfg) then None
                   else Some (test_roles tokenStr, tokenStr))"

definition JWT ::
  "'j jwt_lib \<Rightarrow> (rat \<Rightarrow> int) \<Rightarrow> jwt_settings \<Rightarrow> 'j option \<Rightarrow> int \<Rightarrow> 's handler \<Rightarrow> 's handler" where
  "JWT lib conv cfg loaded now nxt ctx req s =
     (case jwt_identity lib conv cfg loaded now (authorization req) of
        None \<Rightarrow> (s, Some (bare 401))
      | Some (roles, sub) \<Rightarrow> nxt (with_identity roles sub ctx) req s)"

definition Auth ::
  "'j jwt_lib \<Rightarrow> (rat \<Rightarrow> int) \<Rightarrow> jwt_settings \<Rightarrow> 'j option \<Rightarrow> int \<Rightarrow> 's handler \<Rightarrow> 's handler" where
  "Auth lib conv cfg loaded now nxt = JWT lib conv cfg loaded now nxt"

subsection \<open>Facts about the steps\<close>

lemma hasMinimumRBACRoles_iff: "hasMinimumRBACRoles roles \<longleftrightarrow> ''auditor'' \<in> set roles \<or> ''ingester'' \<in> set roles"
  by (induction roles) auto

lemma load_jwks_none: "(\<And>k. k < n \<Longrightarrow> fst (fetch (i + k)) = None) \<Longrightarrow> load_jwks fetch i n None = None"
proof (induction n arbitrary: i)
  case (Suc n)
  from Suc.prems [of 0] have "fst (fetch i) = None" by simp
  moreover have "load_jwks fetch (Suc i) n None = None"
    by (rule Suc.IH) (use Suc.prems [of "Suc k" for k] in auto)
  ultimately show ?case by (auto split: prod.split)
qed simp

lemma settings_sels [simp]:
  "jwt_policy (jwt_read_settings g) = Policy (loadStartupAuthConfig g)"
  "jwt_jwks_url (jwt_read_settings g) = JWKSURL (loadStartupAuthConfig g)"
  "jwt_issuer (jwt_read_settings g) = JWTIssuer (loadStartupAuthConfig g)"
  "jwt_audience (jwt_read_settings g) = JWTAudience (loadStartupAuthConfig g)"
  by (simp_all add: jwt_read_settings_def Let_def)

lemma jwks_identity_some:
  assumes "jwks_identity lib conv cfg jwks now tokenStr = Some (roles, sub)"
  obtains token where "lib_parse lib jwks (jwt_algs cfg) tokenStr = Some token" "tok_valid token"
    "RequireKid (jwt_policy cfg) \<Longrightarrow> \<exists>kid. tok_kid token = Some (CStr kid) \<and> TrimSpace kid \<noteq> []"
    "validateStandardClaims lib conv (tok_claims token) (jwt_issuer cfg) (jwt_audience cfg)
       now (Seconds (jwt_skew cfg)) (Seconds (jwt_max_ttl cfg))"
    "roles = parseRoles (tok_claims token)"
    "RequireRoles (jwt_policy cfg) \<Longrightarrow> hasMinimumRBACRoles roles"
    "sub = (case claim_string (map_of (tok_claims token) ''sub'') of None \<Rightarrow> [] | Some s \<Rightarrow> s)"
proof -
  obtain token where token: "lib_parse lib jwks (jwt_algs cfg) tokenStr = Some token"
    using assms by (auto simp: jwks_identity_def split: option.splits)
  have kid: "\<exists>kid. tok_kid token = Some (CStr kid) \<and> TrimSpace kid \<noteq> []"
    if "TrimSpace (case claim_string (tok_kid token) of None \<Rightarrow> [] | Some kid \<Rightarrow> kid) \<noteq> []"
    using that by (auto simp: claim_string_def split: option.splits claim.splits)
  show thesis
    by (rule that [OF token]) (use assms token kid in \<open>auto simp: jwks_identity_def Let_def split: if_splits\<close>)
qed

lemma validate_some:
  assumes "validateStandardClaims lib conv cs issuer audiences now skew maxTokenTTL"
  shows "\<exists>sub. map_of cs ''sub'' = Some (CStr sub) \<and> TrimSpace sub \<noteq> []"
    and "VerifyExpiresAt lib cs (unix_after now (wrap64 (- skew))) True"
    and "VerifyIssuedAt lib cs (unix_after now skew) False"
    and "VerifyNotBefore lib cs (unix_after now skew) False"
    and "issuer \<noteq> [] \<Longrightarrow> VerifyIssuer lib cs issuer True"
    and "audiences \<noteq> [] \<Longrightarrow> \<exists>aud \<in> set audiences. VerifyAudience lib cs aud True"
  using assms
  by (auto simp: validateStandardClaims_def list_ex_iff claim_string_def split: option.splits claim.splits if_splits)

text \<open>What the token library documents of its checks; a claim of 0 counts as absent.\<close>

definition claim_audiences :: "claims \<Rightarrow> string list" where
  "claim_audiences cs =
     (case map_of cs ''aud'' of
        Some (CArr vs) \<Rightarrow> List.map_filter (\<lambda>v. claim_string (Some v)) vs
      | Some (CStrs ss) \<Rightarrow> ss
      | Some (CStr s) \<Rightarrow> [s]
      | _ \<Rightarrow> [])"

definition documented_jwt_lib :: "'j jwt_lib \<Rightarrow> bool" where
  "documented_jwt_lib lib \<longleftrightarrow>
     (\<forall>jwks algs s token. lib_parse lib jwks algs s = Some token \<longrightarrow> tok_alg token \<in> set algs)
     \<and> (\<forall>cs t. VerifyExpiresAt lib cs t True \<longrightarrow> (\<exists>q. map_of cs ''exp'' = Some (CNum q) \<and> of_int t \<le> q))
     \<and> (\<forall>cs t q. VerifyNotBefore lib cs t False \<longrightarrow> map_of cs ''nbf'' = Some (CNum q) \<longrightarrow> q \<noteq> 0 \<longrightarrow> \<lfloor>q\<rfloor> \<le> t)
     \<and> (\<forall>cs iss. VerifyIssuer lib cs iss True \<longrightarrow> iss \<noteq> [] \<longrightarrow> map_of cs ''iss'' = Some (CStr iss))
     \<and> (\<forall>cs aud. VerifyAudience lib cs aud True \<longrightarrow> aud \<in> set (claim_audiences cs))"

text \<open>A start that was accepted leaves the middleware with usable settings.\<close>

lemma accepted_settings:
  assumes "ValidateAuthStartupConfig g = Inr ()" and "cfg = jwt_read_settings g"
    and "\<not> EnableTestJWT (jwt_policy cfg)"
  shows "JWKSRequired (jwt_policy cfg)" "jwt_config_valid cfg" "jwt_jwks_url cfg \<noteq> []"
    "jwt_issuer cfg \<noteq> []" "jwt_audience cfg \<noteq> []" "RequireKid (jwt_policy cfg)"
proof -
  let ?url = "TrimSpace (g ''JWKS_URL'')" and ?app = "read_app_env g"
  have vars: "?url \<noteq> []" "read_issuer g \<noteq> []" "read_audience g \<noteq> []"
  proof -
    have "Mode (resolveAuthPolicy g ?app ?url) \<in> {authPolicyJWKSStrict, authPolicyJWKSRBAC}"
      using resolve_modes [of g ?app ?url] assms(2,3) resolve_flags(1) [of g ?app ?url] by auto
    then have "HasRequiredJWTVars (loadStartupAuthConfig g)"
      using assms(1) by (auto simp: ValidateAuthStartupConfig_def Let_def simp del: startup_sels(7) startup_sels_prod split: if_splits)
    then show "?url \<noteq> []" "read_issuer g \<noteq> []" "read_audience g \<noteq> []" by simp_all
  qed
  have trim: "TrimSpace ?url \<noteq> []" using vars(1) by simp
  show req: "JWKSRequired (jwt_policy cfg)" using assms(2,3) resolve_jwks trim by simp
  show "jwt_jwks_url cfg \<noteq> []" "jwt_issuer cfg \<noteq> []" "jwt_audience cfg \<noteq> []"
    using vars assms(2) by simp_all
  show "jwt_config_valid cfg"
    using vars assms(2) by (simp add: jwt_read_settings_def Let_def)
  show "RequireKid (jwt_policy cfg)"
    using assms(2,3) resolve_flags(1,3) [of g ?app ?url] by simp
qed

text \<open>C30: The settings that the middleware reads from any environment are well formed: one of the three
  policies with flags that agree with it, limits that are nonnegative 64-bit integers, and lists
  of trimmed names without blanks, the list of algorithms not empty.\<close>

theorem settings_well_formed:
  assumes "cfg = jwt_read_settings g" and "p = jwt_policy cfg"
  shows "Mode p \<in> {authPolicyDev, authPolicyJWKSStrict, authPolicyJWKSRBAC}
    \<and> EnableTestJWT p = (Mode p = authPolicyDev) \<and> RequireKid p = (Mode p \<noteq> authPolicyDev)
    \<and> RequireRoles p = (Mode p = authPolicyJWKSRBAC) \<and> \<not> (EnableTestJWT p \<and> JWKSRequired p)
    \<and> 0 \<le> jwt_skew cfg \<and> in_int64 (jwt_skew cfg) \<and> 0 \<le> jwt_attempts cfg \<and> in_int64 (jwt_attempts cfg)
    \<and> 0 \<le> jwt_max_ttl cfg \<and> in_int64 (jwt_max_ttl cfg)
    \<and> jwt_algs cfg \<noteq> [] \<and> (\<forall>a \<in> set (jwt_algs cfg) \<union> set (jwt_audience cfg). a \<noteq> [] \<and> TrimSpace a = a)"
proof -
  let ?url = "TrimSpace (g ''JWKS_URL'')" and ?app = "read_app_env g"
  have "Mode p \<in> {authPolicyDev, authPolicyJWKSStrict, authPolicyJWKSRBAC}"
    "EnableTestJWT p = (Mode p = authPolicyDev)" "RequireKid p = (Mode p \<noteq> authPolicyDev)"
    "RequireRoles p = (Mode p = authPolicyJWKSRBAC)" "\<not> (EnableTestJWT p \<and> JWKSRequired p)"
    using resolve_modes [of g ?app ?url] resolve_flags [of g ?app ?url] by (auto simp: assms)
  moreover have "0 \<le> jwt_skew cfg" "in_int64 (jwt_skew cfg)" "0 \<le> jwt_attempts cfg" "in_int64 (jwt_attempts cfg)"
    "0 \<le> jwt_max_ttl cfg" "in_int64 (jwt_max_ttl cfg)"
    by (simp_all add: assms(1) jwt_read_settings_def Let_def parseIntEnvDefault_nonneg parseIntEnvDefault_range
        in_int64_def max_int64_def min_int64_def)
      (simp_all add: parseIntEnvDefault_range [unfolded in_int64_def max_int64_def min_int64_def])
  moreover have "a \<noteq> [] \<and> TrimSpace a = a" if "a \<in> set default_algs" for a
    using that by (auto simp: default_algs_def plain_eval)
  then have "jwt_algs cfg \<noteq> []" "\<forall>a \<in> set (jwt_algs cfg) \<union> set (jwt_audience cfg). a \<noteq> [] \<and> TrimSpace a = a"
    by (auto simp: assms(1) jwt_read_settings_def Let_def parseCSVEnvDefault_def read_audience_def default_algs_def
        dest: parseCSVEnv_items parseCSVEnvFirst_items split: if_splits)
  ultimately show ?thesis by blast
qed

subsection \<open>Who gets past the middleware\<close>

text \<open>C18: Fail closed: outside the test mode, when no attempt to load the key set succeeded, every
  request is answered 401 and the next handler does not run, whatever the token and the environment.\<close>

theorem jwt_fail_closed:
  assumes "\<not> EnableTestJWT (jwt_policy cfg)"
    and "\<forall>k < nat (jwt_attempts cfg). fst (fetch k) = None"
  shows "JWT lib conv cfg (jwt_load cfg fetch) now nxt ctx req s = (s, Some (bare 401))"
proof -
  have "load_jwks fetch 0 (nat (jwt_attempts cfg)) None = None"
    by (rule load_jwks_none) (use assms(2) in simp)
  then have "jwt_load cfg fetch = None" by (simp add: jwt_load_def)
  with assms(1) show ?thesis
    by (auto simp: JWT_def jwt_identity_def split: option.split)
qed

definition strict_env :: env where
  "strict_env = env_of [(''ENV'', ''prod''), (''AUTH_POLICY'', ''jwks_rbac''), (''JWKS_URL'', ''u''),
                        (''JWT_ISSUER'', ''i''), (''JWT_AUDIENCE'', ''a'')]"

lemma strict_env_eval:
  "read_app_env strict_env = ''prod''" "TrimSpace (strict_env ''JWKS_URL'') = ''u''"
  "read_issuer strict_env = ''i''" "read_audience strict_env = [''a'']"
  "ToLower (TrimSpace (strict_env ''DEPLOYMENT'')) = []"
  "parseBoolEnvDefault strict_env ''ALLOW_INSECURE_DEV'' False = False"
  "resolveAuthPolicy strict_env app url =
     \<lparr>Mode = authPolicyJWKSRBAC, Source = ''explicit_auth_policy'', EnableTestJWT = False,
      JWKSRequired = True, EnforceRequiredClaim = True, RequireKid = True, RequireRoles = True\<rparr>"
  by (simp_all add: strict_env_def env_of_def read_app_env_def read_issuer_def read_audience_def
      parseBoolEnvDefault_def parseCSVEnv_def Let_def plain_eval resolveAuthPolicy_def
      requested_mode_def policy_names)

lemma strict_env_settings:
  "jwt_attempts (jwt_read_settings strict_env) = 12" "jwt_skew (jwt_read_settings strict_env) = 60"
  "jwt_max_ttl (jwt_read_settings strict_env) = 0"
  "jwt_algs (jwt_read_settings strict_env) = default_algs"
  "jwt_config_valid (jwt_read_settings strict_env)"
  by (simp_all add: jwt_read_settings_def Let_def parseIntEnvDefault_def parseCSVEnvDefault_def
      parseCSVEnv_def strict_env_eval)
    (simp_all add: strict_env_def env_of_def)

lemma strict_env_ok: "ValidateAuthStartupConfig strict_env = Inr ()"
  by (simp add: ValidateAuthStartupConfig_def Let_def strict_env_eval policy_names)

lemma settings_well_formed_witness:
  "0 \<le> jwt_skew (jwt_read_settings strict_env) \<and> TrimSpace ''RS256'' = ''RS256''"
proof -
  have "''RS256'' \<in> set (jwt_algs (jwt_read_settings strict_env))" by (simp add: strict_env_settings default_algs_def)
  with settings_well_formed [OF refl refl, of strict_env] show ?thesis by blast
qed

lemma jwt_fail_closed_witness:
  "\<forall>(lib :: unit jwt_lib) conv now (nxt :: unit handler) ctx req s.
     JWT lib conv (jwt_read_settings strict_env)
       (jwt_load (jwt_read_settings strict_env) (\<lambda>_. (None, True))) now nxt ctx req s = (s, Some (bare 401))"
  by (intro allI jwt_fail_closed) (simp_all add: strict_env_eval)

text \<open>C1: Outside the test mode an accepted start admits only tokens that the library verified
  against the loaded key set with an allowed algorithm, that name a key, whose subject is not
  blank, that have not expired (up to the clock skew), that carry the configured issuer and one of
  the configured audiences; the roles passed on are those of the token, and under the RBAC policy
  include \<open>auditor\<close> or \<open>ingester\<close>.\<close>

theorem jwt_accepted:
  assumes lib: "documented_jwt_lib lib"
    and start: "ValidateAuthStartupConfig g = Inr ()" "cfg = jwt_read_settings g"
      "\<not> EnableTestJWT (jwt_policy cfg)"
    and accepted: "jwt_identity lib conv cfg loaded now auth = Some (roles, sub)"
  shows "\<exists>jwks tokenStr token kid q.
           loaded = Some jwks \<and> extractBearerToken auth = Some tokenStr
           \<and> lib_parse lib jwks (jwt_algs cfg) tokenStr = Some token
           \<and> tok_valid token \<and> tok_alg token \<in> set (jwt_algs cfg)
           \<and> tok_kid token = Some (CStr kid) \<and> TrimSpace kid \<noteq> []
           \<and> map_of (tok_claims token) ''sub'' = Some (CStr sub) \<and> TrimSpace sub \<noteq> []
           \<and> map_of (tok_claims token) ''exp'' = Some (CNum q)
           \<and> of_int (unix_after now (wrap64 (- Seconds (jwt_skew cfg)))) \<le> q
           \<and> map_of (tok_claims token) ''iss'' = Some (CStr (jwt_issuer cfg))
           \<and> set (claim_audiences (tok_claims token)) \<inter> set (jwt_audience cfg) \<noteq> {}
           \<and> roles = parseRoles (tok_claims token)
           \<and> (Mode (jwt_policy cfg) = authPolicyJWKSRBAC \<longrightarrow> ''auditor'' \<in> set roles \<or> ''ingester'' \<in> set roles)"
proof -
  note ok = accepted_settings [OF start]
  obtain tokenStr jwks where str: "extractBearerToken auth = Some tokenStr" and jwks: "loaded = Some jwks"
    and id: "jwks_identity lib conv cfg jwks now tokenStr = Some (roles, sub)"
    using accepted start(3) by (auto simp: jwt_identity_def split: option.splits if_splits)
  from jwks_identity_some [OF id] obtain token where
    token: "lib_parse lib jwks (jwt_algs cfg) tokenStr = Some token" "tok_valid token"
    and kid: "\<exists>kid. tok_kid token = Some (CStr kid) \<and> TrimSpace kid \<noteq> []"
    and valid: "validateStandardClaims lib conv (tok_claims token) (jwt_issuer cfg) (jwt_audience cfg)
                  now (Seconds (jwt_skew cfg)) (Seconds (jwt_max_ttl cfg))"
    and roles: "roles = parseRoles (tok_claims token)"
    and rbac: "RequireRoles (jwt_policy cfg) \<Longrightarrow> hasMinimumRBACRoles roles"
    and sub: "sub = (case claim_string (map_of (tok_claims token) ''sub'') of None \<Rightarrow> [] | Some s \<Rightarrow> s)"
    using ok(6) by blast
  note checks = validate_some [OF valid]
  from checks(1) sub have sub': "map_of (tok_claims token) ''sub'' = Some (CStr sub)" "TrimSpace sub \<noteq> []"
    by (auto simp: claim_string_def)
  have alg: "tok_alg token \<in> set (jwt_algs cfg)"
    using lib token(1) unfolding documented_jwt_lib_def by blast
  obtain q where q: "map_of (tok_claims token) ''exp'' = Some (CNum q)"
    "of_int (unix_after now (wrap64 (- Seconds (jwt_skew cfg)))) \<le> q"
    using lib checks(2) unfolding documented_jwt_lib_def by blast
  have iss: "map_of (tok_claims token) ''iss'' = Some (CStr (jwt_issuer cfg))"
    using lib checks(5) [OF ok(4)] ok(4) unfolding documented_jwt_lib_def by blast
  have aud: "set (claim_audiences (tok_claims token)) \<inter> set (jwt_audience cfg) \<noteq> {}"
    using lib checks(6) [OF ok(5)] unfolding documented_jwt_lib_def by blast
  have "Mode (jwt_policy cfg) = authPolicyJWKSRBAC \<longrightarrow> hasMinimumRBACRoles roles"
    using rbac start(2) by (simp add: resolve_flags)
  with str jwks token alg kid sub' q iss aud roles show ?thesis
    unfolding hasMinimumRBACRoles_iff by blast
qed

text \<open>The documented checks written out, for one key set and one token that it verifies.\<close>

definition listed_jwt_lib :: "(string \<times> parsed_token) list \<Rightarrow> unit jwt_lib" where
  "listed_jwt_lib tokens =
     \<lparr>lib_parse = (\<lambda>_ algs s. case map_of tokens s of
                     Some token \<Rightarrow> if tok_alg token \<in> set algs then Some token else None
                   | None \<Rightarrow> None),
      VerifyExpiresAt = (\<lambda>cs t req. case claim_float (map_of cs ''exp'') of
                           Some q \<Rightarrow> if q = 0 then \<not> req else t < \<lfloor>q\<rfloor>
                         | None \<Rightarrow> \<not> req),
      VerifyIssuedAt = (\<lambda>cs t req. case claim_float (map_of cs ''iat'') of
                          Some q \<Rightarrow> if q = 0 then \<not> req else \<lfloor>q\<rfloor> \<le> t
                        | None \<Rightarrow> \<not> req),
      VerifyNotBefore = (\<lambda>cs t req. case claim_float (map_of cs ''nbf'') of
                           Some q \<Rightarrow> if q = 0 then \<not> req else \<lfloor>q\<rfloor> \<le> t
                         | None \<Rightarrow> \<not> req),
      VerifyIssuer = (\<lambda>cs iss req. case claim_string (map_of cs ''iss'') of
                        Some s \<Rightarrow> s = iss | None \<Rightarrow> \<not> req),
      VerifyAudience = (\<lambda>cs aud req. if claim_audiences cs = [] then \<not> req
                                     else aud \<in> set (claim_audiences cs))\<rparr>"

lemma listed_jwt_lib_documented: "documented_jwt_lib (listed_jwt_lib tokens)"
  unfolding documented_jwt_lib_def
proof (intro conjI allI impI)
  fix cs t assume "VerifyExpiresAt (listed_jwt_lib tokens) cs t True"
  then obtain q where q: "map_of cs ''exp'' = Some (CNum q)" and "t < \<lfloor>q\<rfloor>"
    by (auto simp: listed_jwt_lib_def claim_float_def split: option.splits claim.splits if_splits)
  then have "of_int t \<le> q" by (simp add: less_floor_iff)
  with q show "\<exists>q. map_of cs ''exp'' = Some (CNum q) \<and> of_int t \<le> q" by blast
qed (auto simp: listed_jwt_lib_def claim_float_def claim_string_def
       split: option.splits claim.splits if_splits)

definition demo_token :: parsed_token where
  "demo_token =
     \<lparr>tok_valid = True, tok_alg = ''RS256'', tok_kid = Some (CStr ''k''),
      tok_claims = [(''sub'', CStr ''alice''), (''exp'', CNum 2000), (''iat'', CNum 1000),
                    (''iss'', CStr ''i''), (''aud'', CArr [CStr ''a'']), (''roles'', CArr [CStr ''auditor''])]\<rparr>"

lemma demo_identity:
  "jwt_identity (listed_jwt_lib [(''t'', demo_token)]) (\<lambda>_. 0) (jwt_read_settings strict_env) (Some ())
     (1500 * second_ns) ''Bearer t'' = Some ([''auditor''], ''alice'')"
proof -
  have "extractBearerToken ''Bearer t'' = Some ''t''"
    by (simp add: extractBearerToken_def Let_def TrimSpace_ends TrimSpace_plain plain_def SplitN2_def EqualFold_def)
  moreover have "validateStandardClaims (listed_jwt_lib [(''t'', demo_token)]) (\<lambda>_. 0) (tok_claims demo_token)
      ''i'' [''a''] (1500 * second_ns) (Seconds 60) (Seconds 0)"
    by (simp add: validateStandardClaims_def listed_jwt_lib_def demo_token_def claim_string_def claim_float_def
        claim_audiences_def plain_eval unix_after_def Seconds_def second_ns_def List.map_filter_def wrap64_id in_int64_def int64_defs)
  moreover have "parseRoles (tok_claims demo_token) = [''auditor'']"
    by (simp add: parseRoles_def demo_token_def claim_string_def List.map_filter_def)
  moreover have "lib_parse (listed_jwt_lib [(''t'', demo_token)]) () default_algs ''t'' = Some demo_token"
    by (simp add: listed_jwt_lib_def demo_token_def default_algs_def)
  moreover have "tok_valid demo_token" "claim_string (tok_kid demo_token) = Some ''k''"
    "claim_string (map_of (tok_claims demo_token) ''sub'') = Some ''alice''"
    by (simp_all add: demo_token_def claim_string_def)
  ultimately show ?thesis
    by (simp add: jwt_identity_def jwks_identity_def strict_env_eval strict_env_settings Let_def
        TrimSpace_plain plain_def)
qed

lemma jwt_accepted_witness:
  "Mode (jwt_policy (jwt_read_settings strict_env)) = authPolicyJWKSRBAC
   \<and> (\<exists>token :: parsed_token. map_of (tok_claims token) ''sub'' = Some (CStr ''alice'')
              \<and> [''auditor''] = parseRoles (tok_claims token))"
  using jwt_accepted [OF listed_jwt_lib_documented strict_env_ok refl _ demo_identity]
  by (auto simp: strict_env_eval)

text \<open>C38: In the test mode nothing about a token is verified: every nonblank bearer text is accepted
  as its own subject, and holds the auditor (ingester) role exactly when its lower-cased text
  contains the word \<open>auditor\<close> (\<open>ingest\<close>); configured key sets are not even loaded.\<close>

theorem jwt_test_mode:
  assumes "cfg = jwt_read_settings g" "EnableTestJWT (jwt_policy cfg)"
  shows "jwt_identity lib conv cfg (jwt_load cfg fetch) now auth
           = map_option (\<lambda>tok. (test_roles tok, tok)) (extractBearerToken auth)
         \<and> (\<forall>tok. (''auditor'' \<in> set (test_roles tok)) = Contains (ToLower tok) ''auditor''
                \<and> (''ingester'' \<in> set (test_roles tok)) = Contains (ToLower tok) ''ingest''
                \<and> set (test_roles tok) \<subseteq> {''auditor'', ''ingester''})"
proof
  have "\<not> JWKSRequired (jwt_policy cfg)"
    using assms resolve_flags(5) by simp
  then show "jwt_identity lib conv cfg (jwt_load cfg fetch) now auth
           = map_option (\<lambda>tok. (test_roles tok, tok)) (extractBearerToken auth)"
    using assms(2) by (auto simp: jwt_identity_def jwt_load_def split: option.split)
  have "Contains t ''ingester'' \<Longrightarrow> Contains t ''ingest''" for t
  proof -
    assume "Contains t ''ingester''"
    then obtain a b where "t = a @ ''ingester'' @ b" by (auto simp: Contains_iff)
    then have "t = a @ ''ingest'' @ (''er'' @ b)" by simp
    then show ?thesis unfolding Contains_iff by blast
  qed
  then show "\<forall>tok. (''auditor'' \<in> set (test_roles tok)) = Contains (ToLower tok) ''auditor''
                \<and> (''ingester'' \<in> set (test_roles tok)) = Contains (ToLower tok) ''ingest''
                \<and> set (test_roles tok) \<subseteq> {''auditor'', ''ingester''}"
    by (auto simp: test_roles_def Let_def)
qed

definition dev_env :: env where
  "dev_env = env_of [(''ENV'', ''dev''), (''AUTH_POLICY'', ''dev'')]"

lemma dev_env_test: "EnableTestJWT (jwt_policy (jwt_read_settings dev_env))"
  by (simp add: dev_env_def env_of_def read_app_env_def parseBoolEnvDefault_def Let_def plain_eval
      resolveAuthPolicy_def requested_mode_def policy_names isTestJWTAllowedEnv_def)

lemma jwt_test_mode_witness:
  "jwt_identity (listed_jwt_lib []) (\<lambda>_. 0) (jwt_read_settings dev_env)
     (jwt_load (jwt_read_settings dev_env) (\<lambda>_. (None, True))) 0 ''Bearer auditor''
   = Some ([''auditor''], ''auditor'')"
proof -
  have "extractBearerToken ''Bearer auditor'' = Some ''auditor''"
    by (simp add: extractBearerToken_def Let_def TrimSpace_ends TrimSpace_plain plain_def SplitN2_def EqualFold_def)
  moreover have "test_roles ''auditor'' = [''auditor'']"
    by (simp add: test_roles_def plain_eval HasPrefix_def)
  ultimately show ?thesis
    using jwt_test_mode [OF refl dev_env_test, of "listed_jwt_lib []" "\<lambda>_. 0" "\<lambda>_. (None, True)" 0 "''Bearer auditor''"]
    by simp
qed

text \<open>The bearer token is the trimmed text after a scheme that reads \<open>Bearer\<close> in any case, and is
  never blank; a header built from the scheme, a space and a visible token gives that token back.\<close>

lemma bearer_roundtrip:
  "(tok \<noteq> [] \<and> (\<forall>c \<in> set tok. plain c) \<longrightarrow> extractBearerToken (''Bearer '' @ tok) = Some tok)
   \<and> (extractBearerToken auth = Some t \<longrightarrow>
        t \<noteq> [] \<and> TrimSpace t = t
        \<and> (\<exists>scheme rest. TrimSpace auth = scheme @ '' '' @ rest \<and> EqualFold scheme ''Bearer'' \<and> t = TrimSpace rest))"
proof (intro conjI impI)
  assume tok: "tok \<noteq> [] \<and> (\<forall>c \<in> set tok. plain c)"
  have "TrimSpace (''Bearer '' @ tok) = ''Bearer '' @ tok"
    by (rule TrimSpace_ends) (use tok in \<open>simp_all add: plain_def\<close>)
  moreover have "TrimSpace tok = tok" using tok TrimSpace_plain by blast
  moreover note tok
  ultimately show "extractBearerToken (''Bearer '' @ tok) = Some tok"
    by (simp add: extractBearerToken_def Let_def SplitN2_def EqualFold_def)
next
  assume "extractBearerToken auth = Some t"
  then obtain scheme rest where split: "SplitN2 (TrimSpace auth) (CHR '' '') = [scheme, rest]"
    and scheme: "EqualFold scheme ''Bearer''" and t: "t = TrimSpace rest" "TrimSpace rest \<noteq> []"
    by (auto simp: extractBearerToken_def Let_def split: list.splits if_splits)
  then show "t \<noteq> []" "TrimSpace t = t" by simp_all
  have "TrimSpace auth = scheme @ CHR '' '' # rest"
    by (rule SplitN2_parts [OF split])
  with scheme t show "\<exists>scheme rest. TrimSpace auth = scheme @ '' '' @ rest \<and> EqualFold scheme ''Bearer'' \<and> t = TrimSpace rest"
    by auto
qed

lemma bearer_roundtrip_witness: "extractBearerToken ''Bearer abc'' = Some ''abc''"
  using bearer_roundtrip [of "''abc''"] by (simp add: plain_def)

subsection \<open>The token lifetime limit\<close>

lemma time_Sub_bounded:
  assumes "0 \<le> b" "b \<le> a" "a \<le> 10 ^ 15" and "time_Sub (time_Unix a) (time_Unix b) \<le> m" "m < max_int64"
  shows "(a - b) * second_ns \<le> m"
proof -
  let ?t = "a + 62135596800" and ?u = "b + 62135596800"
  let ?d = "wrap64 ((a - b) * second_ns)"
  let ?k = "?d div second_ns"
  have tu: "time_Unix a = ?t" "time_Unix b = ?u" "wrap64 (a - b) = a - b"
    using assms(1-3) by (simp_all add: time_Unix_def in_int64_def max_int64_def min_int64_def)
  have "in_int64 ?d" by simp
  then have k: "- 9223372037 \<le> ?k" "?k \<le> 9223372036"
    unfolding in_int64_def max_int64_def min_int64_def second_ns_def by linarith+
  have sum: "add_sec ?u ?k = ?u + ?k"
    using k assms(1-3) by (simp add: add_sec_def Let_def in_int64_def max_int64_def min_int64_def)
  have not_less: "\<not> ?t < ?u" using assms(2) by simp
  show ?thesis
  proof (cases "add_sec ?u ?k = ?t \<and> ?d mod second_ns = 0")
    case True
    then have "?k = a - b" using sum by linarith
    moreover have "?d = ?k * second_ns + ?d mod second_ns" by (rule div_mult_mod_eq [symmetric])
    moreover have "time_Sub (time_Unix a) (time_Unix b) = ?d"
      using True by (simp add: time_Sub_def tu Let_def)
    ultimately show ?thesis using assms(4) True by simp
  next
    case False
    then have "time_Sub (time_Unix a) (time_Unix b) = max_int64"
      using not_less by (auto simp: time_Sub_def tu Let_def)
    with assms(4,5) show ?thesis by simp
  qed
qed

text \<open>C37: A lifetime limit of \<open>n\<close> seconds, for every \<open>n\<close> whose nanoseconds fit a duration, is
  enforced: a token that passes has an issue and an expiry time, in this order, and lives at most
  \<open>n\<close> seconds (times up to the year 31 million).\<close>

theorem jwt_ttl_enforced:
  assumes "0 < n" "n \<le> 9223372036"
    and "validateStandardClaims lib conv cs issuer audiences now skew (Seconds n)"
  shows "\<exists>i e. map_of cs ''iat'' = Some (CNum i) \<and> map_of cs ''exp'' = Some (CNum e) \<and> i \<le> e
           \<and> (0 \<le> i \<and> e \<le> 10 ^ 15 \<longrightarrow> \<lfloor>e\<rfloor> - \<lfloor>i\<rfloor> \<le> n)"
proof -
  have n: "Seconds n = n * second_ns" "Seconds n > 0" "Seconds n < max_int64"
    using assms(1,2) by (simp_all add: Seconds_def second_ns_def in_int64_def max_int64_def min_int64_def)
  obtain i e where ie: "map_of cs ''iat'' = Some (CNum i)" "map_of cs ''exp'' = Some (CNum e)" "i \<le> e"
    and sub: "time_Sub (time_Unix (int64_of_float conv e)) (time_Unix (int64_of_float conv i)) \<le> Seconds n"
    using assms(3) n(2)
    by (auto simp: validateStandardClaims_def claim_float_def not_less split: option.splits claim.splits if_splits)
  have "\<lfloor>e\<rfloor> - \<lfloor>i\<rfloor> \<le> n" if range: "0 \<le> i" "e \<le> 10 ^ 15"
  proof -
    have floors: "0 \<le> \<lfloor>i\<rfloor>" "\<lfloor>i\<rfloor> \<le> \<lfloor>e\<rfloor>" "\<lfloor>e\<rfloor> \<le> 10 ^ 15"
      using ie(3) range floor_mono [of e "10 ^ 15"] by (simp_all add: floor_mono)
    then have "int64_of_float conv e = \<lfloor>e\<rfloor>" "int64_of_float conv i = \<lfloor>i\<rfloor>"
      using ie(3) range by (simp_all add: int64_of_float_def Let_def in_int64_def max_int64_def min_int64_def)
    then have "(\<lfloor>e\<rfloor> - \<lfloor>i\<rfloor>) * second_ns \<le> n * second_ns"
      using time_Sub_bounded [OF floors] sub n(1,3) by simp
    then show ?thesis by (simp add: second_ns_def)
  qed
  with ie show ?thesis by blast
qed

lemma jwt_ttl_enforced_witness:
  "\<exists>i e. map_of (tok_claims demo_token) ''iat'' = Some (CNum i) \<and> map_of (tok_claims demo_token) ''exp'' = Some (CNum e)
         \<and> i \<le> e \<and> (0 \<le> i \<and> e \<le> 10 ^ 15 \<longrightarrow> \<lfloor>e\<rfloor> - \<lfloor>i\<rfloor> \<le> 1000)"
proof -
  have "validateStandardClaims (listed_jwt_lib []) (\<lambda>_. 0) (tok_claims demo_token) ''i'' [''a'']
          (1500 * second_ns) (Seconds 60) (Seconds 1000)"
    by (simp add: validateStandardClaims_def listed_jwt_lib_def demo_token_def claim_string_def claim_float_def
        claim_audiences_def plain_eval unix_after_def Seconds_def second_ns_def List.map_filter_def in_int64_def
        max_int64_def min_int64_def time_Sub_def time_Unix_def int64_of_float_def add_sec_def)
  from jwt_ttl_enforced [OF _ _ this] show ?thesis by simp
qed

text \<open>A configured limit between 9223372037 and 18446744073 seconds wraps to a negative duration
  when it is turned into nanoseconds, and is silently not enforced: the claims check is the same
  as with no limit at all.\<close>

lemma jwt_ttl_overflow:
  assumes "9223372037 \<le> n" "n \<le> 18446744073"
  shows "validateStandardClaims lib conv cs issuer audiences now skew (Seconds n)
           = validateStandardClaims lib conv cs issuer audiences now skew 0"
proof -
  have "(n * second_ns + 9223372036854775808) mod 18446744073709551616
          = (n * second_ns + 9223372036854775808 - 18446744073709551616) mod 18446744073709551616"
    by (rule minus_mod_self2 [symmetric])
  also have "\<dots> = n * second_ns + 9223372036854775808 - 18446744073709551616"
    by (rule mod_pos_pos_trivial) (use assms in \<open>simp_all add: second_ns_def\<close>)
  finally have "Seconds n \<le> 0"
    using assms by (simp add: Seconds_def wrap64_def second_ns_def)
  then show ?thesis by (simp add: validateStandardClaims_def split: option.split)
qed

lemma jwt_ttl_overflow_witness:
  "\<forall>cs. validateStandardClaims (listed_jwt_lib []) (\<lambda>_. 0) cs ''i'' [''a''] 0 (Seconds 60) (Seconds 10000000000)
      = validateStandardClaims (listed_jwt_lib []) (\<lambda>_. 0) cs ''i'' [''a''] 0 (Seconds 60) 0"
  by (intro allI jwt_ttl_overflow) simp_all

end
