(* ===== verification/Store.thy ===== *)
theory Store
  imports Prelude
begin

text \<open>
  The evidence store of \<open>vault-api/store/store.go\<close>: the interface \<open>Store\<close> as a record of
  operations, its two implementations (\<open>memStore\<close>, \<open>pgStore\<close>), the package variable
  \<open>current\<close> with \<open>Init\<close> and \<open>Current\<close>, and the contract that both implementations keep,
  as the locale \<open>evidence_store\<close>, interpreted for each of them.

  A pointer \<open>*int64\<close> is an \<open>int option\<close>: the code replaces such pointers and never writes
  through one. The order in which \<open>memStore.AssignNextPendingLeaf\<close> ranges over its map is the
  argument \<open>order\<close>. Postgres is outside the repository: \<open>pgStore\<close> is modelled by what its SQL
  texts say about one table, kept in the order of \<open>created_at\<close>, and every round trip to the
  server may fail before or after taking effect (\<open>outcome\<close>).
\<close>

record evidence =
  ev_id :: string
  leaf_index :: "int option"

record audit_entry =
  au_id :: string
  resource_id :: string
  actor :: string
  timestamp :: int

datatype store_error = NotFound | DbError

type_synonym ('a, 's) store_op = "'s \<Rightarrow> (store_error + 'a) \<times> 's"

record 's store_ops =
  save_evidence :: "string \<Rightarrow> (unit, 's) store_op"
  assign_next_pending_leaf :: "string list \<Rightarrow> (evidence option, 's) store_op"
  get_evidence :: "string \<Rightarrow> (evidence, 's) store_op"
  save_audit :: "audit_entry \<Rightarrow> (unit, 's) store_op"
  list_audits :: "int \<Rightarrow> (audit_entry list, 's) store_op"

subsection \<open>The in-memory store\<close>

record mem_store =
  ms_ev :: "(string, evidence) gomap"
  ms_audits :: "audit_entry list"
  ms_next :: int

definition new_memory_store :: mem_store where
  "new_memory_store = \<lparr>ms_ev = [], ms_audits = [], ms_next = 0\<rparr>"

definition mem_save_evidence :: "string \<Rightarrow> (unit, mem_store) store_op" where
  "mem_save_evidence eid m =
     (Inr (), m\<lparr>ms_ev := AList.update eid \<lparr>ev_id = eid, leaf_index = None\<rparr> (ms_ev m)\<rparr>)"

definition mem_pending :: "mem_store \<Rightarrow> string \<Rightarrow> bool" where
  "mem_pending m k =
     (case map_of (ms_ev m) k of None \<Rightarrow> False | Some e \<Rightarrow> leaf_index e = None)"

definition mem_assign :: "string list \<Rightarrow> (evidence option, mem_store) store_op" where
  "mem_assign order m =
     (case List.find (mem_pending m) order of
        None \<Rightarrow> (Inr None, m)
      | Some k \<Rightarrow>
          (let e = (the (map_of (ms_ev m) k))\<lparr>leaf_index := Some (ms_next m)\<rparr>
           in (Inr (Some e),
               m\<lparr>ms_ev := AList.update k e (ms_ev m), ms_next := wrap64 (ms_next m + 1)\<rparr>)))"

definition mem_get_evidence :: "string \<Rightarrow> (evidence, mem_store) store_op" where
  "mem_get_evidence eid m =
     (case map_of (ms_ev m) eid of None \<Rightarrow> (Inl NotFound, m) | Some e \<Rightarrow> (Inr e, m))"

definition mem_save_audit :: "audit_entry \<Rightarrow> (unit, mem_store) store_op" where
  "mem_save_audit a m = (Inr (), m\<lparr>ms_audits := ms_audits m @ [a]\<rparr>)"

definition mem_list_audits :: "int \<Rightarrow> (audit_entry list, mem_store) store_op" where
  "mem_list_audits limit m =
     (let n = int (length (ms_audits m));
          lim = (if limit \<le> 0 \<or> limit > n then n else limit)
      in (Inr (take (nat lim) (ms_audits m)), m))"

definition mem_ops :: "mem_store store_ops" where
  "mem_ops =
     \<lparr>save_evidence = mem_save_evidence, assign_next_pending_leaf = mem_assign,
      get_evidence = mem_get_evidence, save_audit = mem_save_audit,
      list_audits = mem_list_audits\<rparr>"

subsection \<open>The Postgres store\<close>

text \<open>
  \<open>LostAfter\<close>: the statement took effect and its reply was lost. An exhausted list of outcomes
  means that every further round trip succeeds.
\<close>

datatype outcome = Succeeds | LostBefore | LostAfter

record pg_row =
  row_id :: string
  row_leaf :: "int option"

record pg_store =
  pg_rows :: "pg_row list"            \<comment> \<open>in the order of \<open>created_at\<close>\<close>
  pg_audit :: "audit_entry list"      \<comment> \<open>in the order of insertion\<close>
  pg_net :: "outcome list"            \<comment> \<open>the fate of the coming round trips\<close>

definition next_outcome :: "pg_store \<Rightarrow> outcome \<times> pg_store" where
  "next_outcome s =
     (case pg_net s of [] \<Rightarrow> (Succeeds, s) | f # fs \<Rightarrow> (f, s\<lparr>pg_net := fs\<rparr>))"

text \<open>One statement outside a transaction.\<close>

definition pg_exec :: "(pg_store \<Rightarrow> 'a \<times> pg_store) \<Rightarrow> ('a, pg_store) store_op" where
  "pg_exec stmt s =
     (let (f, s1) = next_outcome s
      in case f of
           Succeeds \<Rightarrow> (let (x, s2) = stmt s1 in (Inr x, s2))
         | LostBefore \<Rightarrow> (Inl DbError, s1)
         | LostAfter \<Rightarrow> (Inl DbError, snd (stmt s1)))"

definition insert_row :: "string \<Rightarrow> pg_row list \<Rightarrow> pg_row list" where
  "insert_row u rows =
     (if u \<in> set (map row_id rows) then rows else rows @ [\<lparr>row_id = u, row_leaf = None\<rparr>])"

text \<open>
  The column type UUID: \<open>uu\<close> is Postgres' reading of a text as a UUID in canonical form,
  \<open>None\<close> when the text is not one.
\<close>

definition pg_save_evidence :: "(string \<Rightarrow> string option) \<Rightarrow> string \<Rightarrow> (unit, pg_store) store_op" where
  "pg_save_evidence uu eid s =
     (case uu eid of
        None \<Rightarrow> (Inl DbError, snd (next_outcome s))
      | Some u \<Rightarrow> pg_exec (\<lambda>s. ((), s\<lparr>pg_rows := insert_row u (pg_rows s)\<rparr>)) s)"

definition max_leaf :: "pg_row list \<Rightarrow> int option" where
  "max_leaf rows =
     fold (\<lambda>r acc. case row_leaf r of
                     None \<Rightarrow> acc
                   | Some i \<Rightarrow> (case acc of None \<Rightarrow> Some i | Some j \<Rightarrow> Some (max i j))) rows None"

definition set_leaf :: "string \<Rightarrow> int \<Rightarrow> pg_row list \<Rightarrow> pg_row list" where
  "set_leaf u i rows = map (\<lambda>r. if row_id r = u then r\<lparr>row_leaf := Some i\<rparr> else r) rows"

definition next_leaf :: "pg_row list \<Rightarrow> int" where
  "next_leaf rows = (case max_leaf rows of None \<Rightarrow> 0 | Some m \<Rightarrow> wrap64 (m + 1))"

text \<open>
  \<open>AssignNextPendingLeaf\<close> makes five round trips: begin, select a pending row, select the
  maximum, update, commit. Any error of the first select, not only "no rows", is reported as
  nothing to do. Before the commit a failure rolls everything back.
\<close>

definition pg_assign :: "string list \<Rightarrow> (evidence option, pg_store) store_op" where
  "pg_assign order s =
     (let (o1, s1) = next_outcome s
      in if o1 \<noteq> Succeeds then (Inl DbError, s1)
         else let (o2, s2) = next_outcome s1
      in if o2 \<noteq> Succeeds then (Inr None, s2)
         else case List.find (\<lambda>r. row_leaf r = None) (pg_rows s2) of
           None \<Rightarrow> (Inr None, s2)
         | Some r \<Rightarrow>
             (let (o3, s3) = next_outcome s2
              in if o3 \<noteq> Succeeds then (Inl DbError, s3)
                 else let tmp = next_leaf (pg_rows s3); (o4, s4) = next_outcome s3
              in if o4 \<noteq> Succeeds then (Inl DbError, s4)
                 else let rows = set_leaf (row_id r) tmp (pg_rows s4); (o5, s5) = next_outcome s4
              in case o5 of
                   Succeeds \<Rightarrow>
                     (Inr (Some \<lparr>ev_id = row_id r, leaf_index = Some tmp\<rparr>), s5\<lparr>pg_rows := rows\<rparr>)
                 | LostBefore \<Rightarrow> (Inl DbError, s5)
                 | LostAfter \<Rightarrow> (Inl DbError, s5\<lparr>pg_rows := rows\<rparr>)))"

definition pg_get_evidence :: "(string \<Rightarrow> string option) \<Rightarrow> string \<Rightarrow> (evidence, pg_store) store_op" where
  "pg_get_evidence uu eid s =
     (let (f, s1) = next_outcome s
      in if f \<noteq> Succeeds then (Inl DbError, s1)
         else case uu eid of
           None \<Rightarrow> (Inl DbError, s1)
         | Some u \<Rightarrow>
             (case List.find (\<lambda>r. row_id r = u) (pg_rows s1) of
                None \<Rightarrow> (Inl NotFound, s1)
              | Some r \<Rightarrow> (Inr \<lparr>ev_id = eid, leaf_index = row_leaf r\<rparr>, s1)))"

definition pg_save_audit :: "(string \<Rightarrow> string option) \<Rightarrow> string \<Rightarrow> audit_entry \<Rightarrow> (unit, pg_store) store_op" where
  "pg_save_audit uu fresh a s =
     (let a1 = (if au_id a = [] then a\<lparr>au_id := fresh\<rparr> else a)
      in case (uu (au_id a1), uu (resource_id a1)) of
           (Some i, Some r) \<Rightarrow>
             (if i \<in> set (map au_id (pg_audit s)) then (Inl DbError, snd (next_outcome s))
              else pg_exec (\<lambda>s. ((), s\<lparr>pg_audit := pg_audit s @ [a1\<lparr>au_id := i, resource_id := r\<rparr>]\<rparr>)) s)
         | _ \<Rightarrow> (Inl DbError, snd (next_outcome s)))"

text \<open>
  \<open>ListAudits\<close> reads at most \<open>limit\<close> rows, latest first. The loop over \<open>rows.Next\<close> ends without
  an error when the connection is lost; \<open>got\<close> is the number of rows delivered before that.
\<close>

definition pg_list_audits :: "nat \<Rightarrow> int \<Rightarrow> (audit_entry list, pg_store) store_op" where
  "pg_list_audits got limit s =
     (let (f, s1) = next_outcome s
      in if f \<noteq> Succeeds \<or> limit < 0 then (Inl DbError, s1)
         else (Inr (take got (take (nat limit) (sort_key (\<lambda>a. - timestamp a) (pg_audit s1)))), s1))"

definition pg_ops :: "(string \<Rightarrow> string option) \<Rightarrow> string \<Rightarrow> nat \<Rightarrow> pg_store store_ops" where
  "pg_ops uu fresh got =
     \<lparr>save_evidence = pg_save_evidence uu, assign_next_pending_leaf = pg_assign,
      get_evidence = pg_get_evidence uu, save_audit = pg_save_audit uu fresh,
      list_audits = pg_list_audits got\<rparr>"

text \<open>\<open>ensureSchema\<close> creates the tables if they do not exist; existing rows stay.\<close>

definition pg_ensure_schema :: "(unit, pg_store) store_op" where
  "pg_ensure_schema = pg_exec (\<lambda>s. ((), s))"

subsection \<open>The package variable \<open>current\<close>\<close>

datatype any_store = Mem mem_store | Pg pg_store

text \<open>\<open>Init\<close>: \<open>dial\<close> is what the driver finds behind a database URL, \<open>None\<close> if it fails.\<close>

definition store_init ::
  "env \<Rightarrow> (string \<Rightarrow> pg_store option) \<Rightarrow> any_store option \<Rightarrow> (store_error + any_store) \<times> any_store option" where
  "store_init getenv dial current =
     (case current of
        Some s \<Rightarrow> (Inr s, current)
      | None \<Rightarrow>
          (let dbURL = getenv ''DATABASE_URL''
           in if dbURL = [] then (Inr (Mem new_memory_store), Some (Mem new_memory_store))
              else case dial dbURL of
                None \<Rightarrow> (Inl DbError, None)
              | Some pg \<Rightarrow>
                  (case pg_ensure_schema pg of
                     (Inl e, _) \<Rightarrow> (Inl e, None)
                   | (Inr _, pg') \<Rightarrow> (Inr (Pg pg'), Some (Pg pg')))))"

fun lift_mem :: "('a, mem_store) store_op \<Rightarrow> ('a, pg_store) store_op \<Rightarrow> ('a, any_store) store_op" where
  "lift_mem f g (Mem m) = (let (r, m') = f m in (r, Mem m'))"
| "lift_mem f g (Pg p) = (let (r, p') = g p in (r, Pg p'))"

text \<open>Calls through the interface value.\<close>

definition any_ops :: "(string \<Rightarrow> string option) \<Rightarrow> string \<Rightarrow> nat \<Rightarrow> any_store store_ops" where
  "any_ops uu fresh got =
     \<lparr>save_evidence = (\<lambda>i. lift_mem (mem_save_evidence i) (pg_save_evidence uu i)),
      assign_next_pending_leaf = (\<lambda>order. lift_mem (mem_assign order) (pg_assign order)),
      get_evidence = (\<lambda>i. lift_mem (mem_get_evidence i) (pg_get_evidence uu i)),
      save_audit = (\<lambda>a. lift_mem (mem_save_audit a) (pg_save_audit uu fresh a)),
      list_audits = (\<lambda>n. lift_mem (mem_list_audits n) (pg_list_audits got n))\<rparr>"

subsection \<open>The contract of the interface\<close>

text \<open>What a client may observe of a store: which ids it knows, and the leaf index of each.\<close>

type_synonym leaf_view = "string \<Rightarrow> int option option"

text \<open>Leaf \<open>n\<close> is given to the pending record \<open>k\<close>, above every index given before.\<close>

definition assigns :: "leaf_view \<Rightarrow> string \<Rightarrow> int \<Rightarrow> leaf_view \<Rightarrow> bool" where
  "assigns v k n v' \<longleftrightarrow>
     v k = Some None \<and> 0 \<le> n \<and> (\<forall>j l. v j = Some (Some l) \<longrightarrow> l < n) \<and> v' = v(k \<mapsto> Some n)"

definition inj_leaves :: "leaf_view \<Rightarrow> bool" where
  "inj_leaves v \<longleftrightarrow> (\<forall>j k l. v j = Some (Some l) \<and> v k = Some (Some l) \<longrightarrow> j = k)"

definition grows :: "leaf_view \<Rightarrow> leaf_view \<Rightarrow> bool" where
  "grows v v' \<longleftrightarrow> (\<forall>k l. v k = Some (Some l) \<longrightarrow> v' k = Some (Some l)) \<and> dom v \<subseteq> dom v'"

lemma grows_refl [simp]: "grows v v"
  by (simp add: grows_def)

lemma grows_trans: "grows u v \<Longrightarrow> grows v w \<Longrightarrow> grows u w"
  unfolding grows_def by blast

lemma assigns_inj: "assigns v k n v' \<Longrightarrow> inj_leaves v \<Longrightarrow> inj_leaves v'"
  unfolding assigns_def inj_leaves_def by (auto split: if_splits)

lemma assigns_grows: "assigns v k n v' \<Longrightarrow> grows v v'"
  unfolding assigns_def grows_def by (auto split: if_splits)

lemma save_inj: "inj_leaves v \<Longrightarrow> inj_leaves (v(k \<mapsto> None))"
  unfolding inj_leaves_def by (auto split: if_splits)

lemma save_grows: "v k = None \<Longrightarrow> grows v (v(k \<mapsto> None))"
  unfolding grows_def by (auto split: if_splits)

datatype store_cmd =
  CSave string | CAssign "string list" | CGet string | CAudit audit_entry | CList int

fun run_cmd :: "'s store_ops \<Rightarrow> store_cmd \<Rightarrow> 's \<Rightarrow> 's" where
  "run_cmd ops (CSave i) s = snd (save_evidence ops i s)"
| "run_cmd ops (CAssign order) s = snd (assign_next_pending_leaf ops order s)"
| "run_cmd ops (CGet i) s = snd (get_evidence ops i s)"
| "run_cmd ops (CAudit a) s = snd (save_audit ops a s)"
| "run_cmd ops (CList n) s = snd (list_audits ops n s)"

fun run_cmds :: "'s store_ops \<Rightarrow> store_cmd list \<Rightarrow> 's \<Rightarrow> 's" where
  "run_cmds ops [] s = s"
| "run_cmds ops (c # cs) s = run_cmds ops cs (run_cmd ops c s)"

text \<open>A client that saves fresh ids only, and stops before the index space is used up.\<close>

fun admissible ::
  "('s \<Rightarrow> leaf_view) \<Rightarrow> ('s \<Rightarrow> bool) \<Rightarrow> (string \<Rightarrow> bool) \<Rightarrow> store_cmd \<Rightarrow> 's \<Rightarrow> bool" where
  "admissible view room key (CSave i) s = (key i \<and> view s i = None)"
| "admissible view room key (CAssign order) s = room s"
| "admissible view room key _ s = True"

fun all_admissible ::
  "'s store_ops \<Rightarrow> ('s \<Rightarrow> leaf_view) \<Rightarrow> ('s \<Rightarrow> bool) \<Rightarrow> (string \<Rightarrow> bool) \<Rightarrow> store_cmd list \<Rightarrow> 's \<Rightarrow> bool" where
  "all_admissible ops view room key [] s = True"
| "all_admissible ops view room key (c # cs) s =
     (admissible view room key c s \<and> all_admissible ops view room key cs (run_cmd ops c s))"

locale evidence_store =
  fixes ops :: "'s store_ops"
    and view :: "'s \<Rightarrow> leaf_view"
    and inv :: "'s \<Rightarrow> bool"
    and room :: "'s \<Rightarrow> bool"
    and key :: "string \<Rightarrow> bool"
  assumes save_keeps: "inv s \<Longrightarrow> key i \<Longrightarrow> view s i = None \<Longrightarrow> inv (snd (save_evidence ops i s))"
    and save_done: "inv s \<Longrightarrow> key i \<Longrightarrow> view s i = None \<Longrightarrow>
          save_evidence ops i s = (Inr u, s') \<Longrightarrow> view s' = (view s)(i \<mapsto> None)"
    and save_error: "inv s \<Longrightarrow> key i \<Longrightarrow> view s i = None \<Longrightarrow>
          save_evidence ops i s = (Inl x, s') \<Longrightarrow> view s' = view s \<or> view s' = (view s)(i \<mapsto> None)"
    and assign_keeps: "inv s \<Longrightarrow> room s \<Longrightarrow> inv (snd (assign_next_pending_leaf ops order s))"
    and assign_done: "inv s \<Longrightarrow> room s \<Longrightarrow>
          assign_next_pending_leaf ops order s = (Inr (Some e), s') \<Longrightarrow>
          \<exists>n. leaf_index e = Some n \<and> assigns (view s) (ev_id e) n (view s')"
    and assign_none: "inv s \<Longrightarrow> room s \<Longrightarrow>
          assign_next_pending_leaf ops order s = (Inr None, s') \<Longrightarrow> view s' = view s"
    and assign_error: "inv s \<Longrightarrow> room s \<Longrightarrow>
          assign_next_pending_leaf ops order s = (Inl x, s') \<Longrightarrow>
          view s' = view s \<or> (\<exists>k n. assigns (view s) k n (view s'))"
    and get_done: "inv s \<Longrightarrow> key i \<Longrightarrow> get_evidence ops i s = (Inr e, s') \<Longrightarrow>
          view s i = Some (leaf_index e)"
    and get_keeps: "inv s \<Longrightarrow> inv (snd (get_evidence ops i s)) \<and> view (snd (get_evidence ops i s)) = view s"
    and audit_keeps: "inv s \<Longrightarrow> inv (snd (save_audit ops a s)) \<and> view (snd (save_audit ops a s)) = view s"
    and list_keeps: "inv s \<Longrightarrow> inv (snd (list_audits ops n s)) \<and> view (snd (list_audits ops n s)) = view s"
begin

lemma assign_outcome:
  assumes "inv s" and "room s"
  shows "view (snd (assign_next_pending_leaf ops order s)) = view s
     \<or> (\<exists>k n. assigns (view s) k n (view (snd (assign_next_pending_leaf ops order s))))"
proof (cases "assign_next_pending_leaf ops order s")
  case (Pair r s')
  show ?thesis
  proof (cases r)
    case (Inl x)
    with Pair assign_error [OF assms] show ?thesis by simp
  next
    case (Inr ro)
    show ?thesis
    proof (cases ro)
      case None
      with Pair Inr assign_none [OF assms] show ?thesis by simp
    next
      case (Some e)
      with Pair Inr assign_done [OF assms] show ?thesis by fastforce
    qed
  qed
qed

lemma save_outcome:
  assumes "inv s" and "key i" and "view s i = None"
  shows "view (snd (save_evidence ops i s)) = view s
     \<or> view (snd (save_evidence ops i s)) = (view s)(i \<mapsto> None)"
proof (cases "save_evidence ops i s")
  case (Pair r s')
  with save_done [OF assms] save_error [OF assms] show ?thesis by (cases r) simp_all
qed

lemma step_keeps:
  assumes "inv s" and "admissible view room key c s"
  shows "inv (run_cmd ops c s)" and "inj_leaves (view s) \<Longrightarrow> inj_leaves (view (run_cmd ops c s))"
    and "grows (view s) (view (run_cmd ops c s))"
proof -
  show "inv (run_cmd ops c s)"
    using assms save_keeps assign_keeps get_keeps audit_keeps list_keeps
    by (cases c) simp_all
  show "inj_leaves (view (run_cmd ops c s))" if "inj_leaves (view s)"
    using assms that save_outcome assign_outcome get_keeps audit_keeps list_keeps
    by (cases c) (auto dest: assigns_inj save_inj; metis assigns_inj save_inj)+
  show "grows (view s) (view (run_cmd ops c s))"
    using assms save_outcome assign_outcome get_keeps audit_keeps list_keeps
    by (cases c) (auto; metis assigns_grows save_grows grows_refl)+
qed

text \<open>Over any admissible run the leaf indices stay distinct and, once given, never change.\<close>

lemma run_keeps:
  "inv s \<Longrightarrow> inj_leaves (view s) \<Longrightarrow> all_admissible ops view room key cs s \<Longrightarrow>
     inv (run_cmds ops cs s) \<and> inj_leaves (view (run_cmds ops cs s))
     \<and> grows (view s) (view (run_cmds ops cs s))"
proof (induction cs arbitrary: s)
  case Nil
  then show ?case by simp
next
  case (Cons c cs)
  then have adm: "admissible view room key c s" and rest: "all_admissible ops view room key cs (run_cmd ops c s)" by simp_all
  note one = step_keeps [OF \<open>inv s\<close> adm]
  from Cons.IH [OF one(1) one(2) [OF \<open>inj_leaves (view s)\<close>] rest] one(3)
  show ?case by (auto intro: grows_trans)
qed

end

text \<open>A store that leaves a record it already has untouched when it is saved again.\<close>

locale idempotent_store = evidence_store +
  assumes save_again: "inv s \<Longrightarrow> key i \<Longrightarrow> view s i \<noteq> None \<Longrightarrow> view (snd (save_evidence ops i s)) = view s"
begin

lemma any_save_grows: "inv s \<Longrightarrow> key i \<Longrightarrow> grows (view s) (view (snd (save_evidence ops i s)))"
  using save_outcome save_again save_grows grows_refl by (cases "view s i") (metis, simp)

end

subsection \<open>The in-memory store keeps the contract\<close>

definition mem_view :: "mem_store \<Rightarrow> leaf_view" where
  "mem_view m k = map_option leaf_index (map_of (ms_ev m) k)"

text \<open>
  The records are filed under their own id, and the indices given so far are exactly those
  below the counter.
\<close>

definition mem_inv :: "mem_store \<Rightarrow> bool" where
  "mem_inv m \<longleftrightarrow>
     gm_ok (ms_ev m) \<and> 0 \<le> ms_next m \<and> ms_next m \<le> max_int64
     \<and> (\<forall>k e. map_of (ms_ev m) k = Some e \<longrightarrow> ev_id e = k)
     \<and> (\<forall>k l. mem_view m k = Some (Some l) \<longrightarrow> 0 \<le> l \<and> l < ms_next m)
     \<and> (\<forall>l. 0 \<le> l \<and> l < ms_next m \<longrightarrow> (\<exists>k. mem_view m k = Some (Some l)))"

definition mem_room :: "mem_store \<Rightarrow> bool" where
  "mem_room m \<longleftrightarrow> ms_next m < max_int64"

lemma mem_view_defined: "mem_pending m k \<longleftrightarrow> mem_view m k = Some None"
  by (auto simp: mem_pending_def mem_view_def split: option.splits)

lemma mem_inv_cover: "mem_inv m \<Longrightarrow> 0 \<le> l \<Longrightarrow> l < ms_next m \<Longrightarrow> \<exists>k. mem_view m k = Some (Some l)"
  unfolding mem_inv_def by blast

lemma mem_inv_bounds: "mem_inv m \<Longrightarrow> mem_view m k = Some (Some l) \<Longrightarrow> 0 \<le> l \<and> l < ms_next m"
  unfolding mem_inv_def by blast

lemma mem_inv_new [simp]: "mem_inv new_memory_store"
  by (simp add: mem_inv_def new_memory_store_def mem_view_def max_int64_def)

lemma mem_save_view: "mem_view (snd (mem_save_evidence i m)) = (mem_view m)(i \<mapsto> None)"
  by (rule ext) (simp add: mem_view_def mem_save_evidence_def)

lemma mem_assign_cases:
  assumes "mem_inv m" and "mem_room m"
  obtains (idle) "mem_assign order m = (Inr None, m)" and "\<forall>k \<in> set order. mem_view m k \<noteq> Some None"
  | (gives) k e m' where "mem_assign order m = (Inr (Some e), m')" and "k \<in> set order"
      and "ev_id e = k" and "leaf_index e = Some (ms_next m)"
      and "assigns (mem_view m) k (ms_next m) (mem_view m')"
      and "ms_next m' = ms_next m + 1"
      and "map_of (ms_ev m') = (map_of (ms_ev m))(k \<mapsto> e)" and "gm_ok (ms_ev m')"
proof (cases "List.find (mem_pending m) order")
  case None
  then have "\<forall>k \<in> set order. mem_view m k \<noteq> Some None"
    by (simp add: find_None_all mem_view_defined)
  with None idle show ?thesis by (simp add: mem_assign_def)
next
  case (Some k)
  then have k: "k \<in> set order" "mem_view m k = Some None"
    using find_Some_in [of "mem_pending m" order k] by (simp_all add: mem_view_defined)
  then obtain e0 where e0: "map_of (ms_ev m) k = Some e0" by (auto simp: mem_view_def)
  let ?e = "e0\<lparr>leaf_index := Some (ms_next m)\<rparr>"
  let ?m' = "m\<lparr>ms_ev := AList.update k ?e (ms_ev m), ms_next := wrap64 (ms_next m + 1)\<rparr>"
  have eq: "mem_assign order m = (Inr (Some ?e), ?m')"
    using Some e0 by (simp add: mem_assign_def Let_def)
  have next_eq: "ms_next ?m' = ms_next m + 1"
    using assms by (simp add: mem_inv_def mem_room_def wrap64_succ in_int64_small)
  have "mem_view ?m' = (mem_view m)(k \<mapsto> Some (ms_next m))"
    by (rule ext) (simp add: mem_view_def)
  then have "assigns (mem_view m) k (ms_next m) (mem_view ?m')"
    using assms(1) k(2) by (simp add: assigns_def mem_inv_def)
  moreover have "ev_id ?e = k" using assms(1) e0 by (simp add: mem_inv_def)
  moreover have "gm_ok (ms_ev ?m')" using assms(1) by (simp add: mem_inv_def)
  ultimately show ?thesis using gives [of ?e ?m' k] eq k(1) next_eq by simp
qed

lemma mem_save_inv:
  assumes "mem_inv m" and "mem_view m i = None"
  shows "mem_inv (snd (mem_save_evidence i m))"
proof -
  let ?m' = "snd (mem_save_evidence i m)"
  have v: "mem_view ?m' = (mem_view m)(i \<mapsto> None)" by (rule mem_save_view)
  have nx: "ms_next ?m' = ms_next m" by (simp add: mem_save_evidence_def)
  have ids: "map_of (ms_ev ?m') = (map_of (ms_ev m))(i \<mapsto> \<lparr>ev_id = i, leaf_index = None\<rparr>)"
    and ok: "gm_ok (ms_ev ?m')"
    using assms(1) by (simp_all add: mem_save_evidence_def mem_inv_def)
  have cover: "\<exists>k. mem_view ?m' k = Some (Some l)" if l: "0 \<le> l" "l < ms_next m" for l
  proof -
    obtain k where k: "mem_view m k = Some (Some l)" using mem_inv_cover [OF assms(1) l] by blast
    with assms(2) have "k \<noteq> i" by auto
    with k v show ?thesis by auto
  qed
  show ?thesis
    unfolding mem_inv_def nx ids
    using assms(1) ok cover v by (auto simp: mem_inv_def split: if_splits)
qed

lemma mem_assign_inv:
  assumes "mem_inv m" and "mem_room m"
  shows "mem_inv (snd (mem_assign order m))"
  using assms
proof (cases rule: mem_assign_cases [where order = order])
  case idle
  with assms show ?thesis by simp
next
  case (gives k e m')
  let ?n = "ms_next m"
  have v: "mem_view m' = (mem_view m)(k \<mapsto> Some ?n)" and k: "mem_view m k = Some None"
    using gives(5) by (simp_all add: assigns_def)
  have nonneg: "0 \<le> ?n" using assms(1) by (simp add: mem_inv_def)
  have cover: "\<exists>j. mem_view m' j = Some (Some l)" if "0 \<le> l" "l < ?n + 1" for l
  proof (cases "l = ?n")
    case True
    with v show ?thesis by auto
  next
    case False
    with that obtain j where j: "mem_view m j = Some (Some l)"
      using mem_inv_cover [OF assms(1), of l] by auto
    with k have "j \<noteq> k" by auto
    with j v show ?thesis by auto
  qed
  have bounds: "0 \<le> l \<and> l < ?n + 1" if "mem_view m' j = Some (Some l)" for j l
    using that v mem_inv_bounds [OF assms(1), of j l] nonneg by (cases "j = k") auto
  show ?thesis
    using assms gives cover bounds by (auto simp: mem_inv_def mem_room_def split: if_splits)
qed

lemma mem_audit_view:
  "mem_view (snd (mem_save_audit a m)) = mem_view m \<and> mem_inv (snd (mem_save_audit a m)) = mem_inv m"
  by (simp add: mem_save_audit_def mem_view_def [abs_def] mem_inv_def)

lemma mem_get_same: "snd (mem_get_evidence i m) = m"
  by (simp add: mem_get_evidence_def split: option.split)

lemma mem_list_same: "snd (mem_list_audits n m) = m"
  by (simp add: mem_list_audits_def Let_def)

interpretation ms: evidence_store mem_ops mem_view mem_inv mem_room "\<lambda>_. True"
proof
  fix m m' :: mem_store and i :: string and u :: unit and x :: store_error
    and order :: "string list" and e :: evidence and a :: audit_entry and n :: int
  assume inv: "mem_inv m"
  show "mem_inv (snd (save_evidence mem_ops i m))" if "mem_view m i = None"
    using mem_save_inv [OF inv that] by (simp add: mem_ops_def)
  show "mem_view m' = (mem_view m)(i \<mapsto> None)" if "save_evidence mem_ops i m = (Inr u, m')"
    using that mem_save_view [of i m] by (simp add: mem_ops_def)
  show "mem_view m' = mem_view m \<or> mem_view m' = (mem_view m)(i \<mapsto> None)"
    if "save_evidence mem_ops i m = (Inl x, m')"
    using that by (simp add: mem_ops_def mem_save_evidence_def)
  show "mem_view m i = Some (leaf_index e)" if "get_evidence mem_ops i m = (Inr e, m')"
    using that by (auto simp: mem_ops_def mem_get_evidence_def mem_view_def split: option.splits)
  show "mem_inv (snd (get_evidence mem_ops i m)) \<and> mem_view (snd (get_evidence mem_ops i m)) = mem_view m"
    using inv by (simp add: mem_ops_def mem_get_same)
  show "mem_inv (snd (save_audit mem_ops a m)) \<and> mem_view (snd (save_audit mem_ops a m)) = mem_view m"
    using inv by (simp add: mem_ops_def mem_audit_view)
  show "mem_inv (snd (list_audits mem_ops n m)) \<and> mem_view (snd (list_audits mem_ops n m)) = mem_view m"
    using inv by (simp add: mem_ops_def mem_list_same)
  assume room: "mem_room m"
  show "mem_inv (snd (assign_next_pending_leaf mem_ops order m))"
    using mem_assign_inv [OF inv room] by (simp add: mem_ops_def)
  show "\<exists>n. leaf_index e = Some n \<and> assigns (mem_view m) (ev_id e) n (mem_view m')"
    if "assign_next_pending_leaf mem_ops order m = (Inr (Some e), m')"
    using inv room that
    by (cases rule: mem_assign_cases [where order = order]) (auto simp: mem_ops_def)
  show "mem_view m' = mem_view m" if "assign_next_pending_leaf mem_ops order m = (Inr None, m')"
    using inv room that
    by (cases rule: mem_assign_cases [where order = order]) (auto simp: mem_ops_def)
  show "mem_view m' = mem_view m \<or> (\<exists>k n. assigns (mem_view m) k n (mem_view m'))"
    if "assign_next_pending_leaf mem_ops order m = (Inl x, m')"
    using inv room that
    by (cases rule: mem_assign_cases [where order = order]) (auto simp: mem_ops_def)
qed

subsection \<open>The Postgres store keeps the contract\<close>

definition pg_view :: "pg_store \<Rightarrow> leaf_view" where
  "pg_view s k = map_of (map (\<lambda>r. (row_id r, row_leaf r)) (pg_rows s)) k"

definition pg_inv :: "pg_store \<Rightarrow> bool" where
  "pg_inv s \<longleftrightarrow> distinct (map row_id (pg_rows s))
     \<and> (\<forall>r \<in> set (pg_rows s). \<forall>l. row_leaf r = Some l \<longrightarrow> 0 \<le> l \<and> l \<le> max_int64)"

definition pg_room :: "pg_store \<Rightarrow> bool" where
  "pg_room s \<longleftrightarrow> (\<forall>r \<in> set (pg_rows s). \<forall>l. row_leaf r = Some l \<longrightarrow> l < max_int64)"

lemma pg_view_iff:
  "distinct (map row_id (pg_rows s)) \<Longrightarrow>
     pg_view s k = Some v \<longleftrightarrow> (\<exists>r \<in> set (pg_rows s). row_id r = k \<and> row_leaf r = v)"
  by (auto simp: pg_view_def map_of_eq_Some_iff comp_def image_iff)

lemma pg_view_None: "pg_view s k = None \<longleftrightarrow> k \<notin> row_id ` set (pg_rows s)"
  by (auto simp: pg_view_def map_of_eq_None_iff image_iff)

text \<open>The state after a round trip differs in the list of outcomes only.\<close>

lemma next_outcome_same:
  "next_outcome s = (f, s') \<Longrightarrow> pg_rows s' = pg_rows s \<and> pg_audit s' = pg_audit s"
  by (auto simp: next_outcome_def split: list.splits)

lemma next_outcome_snd [simp]:
  "pg_rows (snd (next_outcome s)) = pg_rows s" "pg_audit (snd (next_outcome s)) = pg_audit s"
  by (simp_all add: next_outcome_def split: list.split)

lemma pg_cong:
  "pg_rows s' = pg_rows s \<Longrightarrow> pg_view s' = pg_view s \<and> pg_inv s' = pg_inv s \<and> pg_room s' = pg_room s"
  by (simp add: pg_view_def [abs_def] pg_inv_def pg_room_def)

lemma pg_exec_cases:
  obtains (before) s1 where "pg_exec stmt s = (Inl DbError, s1)" and "pg_rows s1 = pg_rows s"
      and "pg_audit s1 = pg_audit s"
  | (after) s1 r where "pg_rows s1 = pg_rows s" and "pg_audit s1 = pg_audit s"
      and "pg_exec stmt s = (r, snd (stmt s1))" and "r = Inl DbError \<or> r = Inr (fst (stmt s1))"
proof (cases "next_outcome s")
  case (Pair f s1)
  from next_outcome_same [OF this] have same: "pg_rows s1 = pg_rows s" "pg_audit s1 = pg_audit s"
    by simp_all
  show ?thesis
  proof (cases f)
    case LostBefore
    with Pair same before show ?thesis by (simp add: pg_exec_def)
  qed (use Pair same after [of s1] in \<open>simp_all add: pg_exec_def case_prod_beta\<close>)
qed

lemma max_leaf_step:
  "fold (\<lambda>r acc. case row_leaf r of None \<Rightarrow> acc
      | Some i \<Rightarrow> (case acc of None \<Rightarrow> Some i | Some j \<Rightarrow> Some (max i j))) rows acc0 = acc1 \<Longrightarrow>
     (\<forall>j. acc0 = Some j \<longrightarrow> (\<exists>m. acc1 = Some m \<and> j \<le> m))
     \<and> (\<forall>r \<in> set rows. \<forall>i. row_leaf r = Some i \<longrightarrow> (\<exists>m. acc1 = Some m \<and> i \<le> m))
     \<and> (\<forall>m. acc1 = Some m \<longrightarrow> acc0 = Some m \<or> (\<exists>r \<in> set rows. row_leaf r = Some m))"
proof (induction rows arbitrary: acc0)
  case Nil
  then show ?case by simp
next
  case (Cons r rows)
  let ?acc = "case row_leaf r of None \<Rightarrow> acc0
      | Some i \<Rightarrow> (case acc0 of None \<Rightarrow> Some i | Some j \<Rightarrow> Some (max i j))"
  from Cons.prems have "fold (\<lambda>r acc. case row_leaf r of None \<Rightarrow> acc
      | Some i \<Rightarrow> (case acc of None \<Rightarrow> Some i | Some j \<Rightarrow> Some (max i j))) rows ?acc = acc1" by simp
  note IH = Cons.IH [OF this]
  show ?case
  proof (cases "row_leaf r")
    case None
    with IH show ?thesis by auto
  next
    case (Some i)
    show ?thesis
    proof (cases acc0)
      case None
      with Some IH show ?thesis by auto
    next
      case (Some j)
      with \<open>row_leaf r = Some i\<close> IH obtain m where m: "acc1 = Some m" "max i j \<le> m" by auto
      with Some \<open>row_leaf r = Some i\<close> IH show ?thesis by (auto simp: max_def split: if_splits)
    qed
  qed
qed

lemma max_leaf_upper: "r \<in> set rows \<Longrightarrow> row_leaf r = Some i \<Longrightarrow> \<exists>m. max_leaf rows = Some m \<and> i \<le> m"
  using max_leaf_step [of rows None "max_leaf rows"] by (simp add: max_leaf_def)

lemma max_leaf_in: "max_leaf rows = Some m \<Longrightarrow> \<exists>r \<in> set rows. row_leaf r = Some m"
  using max_leaf_step [of rows None "max_leaf rows"] by (simp add: max_leaf_def)

lemma next_leaf_above:
  assumes "pg_inv s" and "pg_room s"
  shows "0 \<le> next_leaf (pg_rows s)" and "next_leaf (pg_rows s) \<le> max_int64"
    and "r \<in> set (pg_rows s) \<Longrightarrow> row_leaf r = Some i \<Longrightarrow> i < next_leaf (pg_rows s)"
proof -
  have top: "0 \<le> m \<and> m < max_int64" if "max_leaf (pg_rows s) = Some m" for m
    using max_leaf_in [OF that] assms by (auto simp: pg_inv_def pg_room_def)
  have eq: "next_leaf (pg_rows s) = (case max_leaf (pg_rows s) of None \<Rightarrow> 0 | Some m \<Rightarrow> m + 1)"
    using top by (auto simp: next_leaf_def in_int64_small wrap64_succ split: option.split)
  show "0 \<le> next_leaf (pg_rows s)" and "next_leaf (pg_rows s) \<le> max_int64"
    using top by (auto simp: eq int64_defs split: option.split)
  show "i < next_leaf (pg_rows s)" if "r \<in> set (pg_rows s)" "row_leaf r = Some i"
    using max_leaf_upper [OF that] by (auto simp: eq)
qed

lemma pg_assign_cases:
  obtains (idle) res s' where "pg_assign order s = (res, s')" and "pg_rows s' = pg_rows s"
      and "res = Inl DbError \<or> res = Inr None"
  | (gives) res s' r where "pg_assign order s = (res, s')"
      and "r \<in> set (pg_rows s)" and "row_leaf r = None"
      and "pg_rows s' = set_leaf (row_id r) (next_leaf (pg_rows s)) (pg_rows s)"
      and "res = Inl DbError
           \<or> res = Inr (Some \<lparr>ev_id = row_id r, leaf_index = Some (next_leaf (pg_rows s))\<rparr>)"
proof -
  let ?s2 = "snd (next_outcome (snd (next_outcome s)))"
  let ?s4 = "snd (next_outcome (snd (next_outcome ?s2)))"
  let ?f5 = "fst (next_outcome ?s4)" and ?s5 = "snd (next_outcome ?s4)"
  obtain res s' where eq: "pg_assign order s = (res, s')" by (cases "pg_assign order s")
  consider (same) "pg_rows s' = pg_rows s" "res = Inl DbError \<or> res = Inr None"
    | (commit) r where "List.find (\<lambda>r. row_leaf r = None) (pg_rows s) = Some r"
        "pg_rows s' = set_leaf (row_id r) (next_leaf (pg_rows s)) (pg_rows s)"
        "res = Inl DbError
         \<or> res = Inr (Some \<lparr>ev_id = row_id r, leaf_index = Some (next_leaf (pg_rows s))\<rparr>)"
    using eq
    by (auto simp: pg_assign_def Let_def case_prod_beta split: if_splits option.splits outcome.splits)
  then show ?thesis
  proof cases
    case same
    with eq idle show ?thesis by blast
  next
    case commit
    with find_Some_in [OF commit(1)] eq gives show ?thesis by blast
  qed
qed

lemma set_leaf_ids [simp]: "map row_id (set_leaf u i rows) = map row_id rows"
  by (simp add: set_leaf_def)

lemma pg_commit:
  assumes inv: "pg_inv s" and room: "pg_room s"
    and r: "r \<in> set (pg_rows s)" "row_leaf r = None"
    and s': "pg_rows s' = set_leaf (row_id r) (next_leaf (pg_rows s)) (pg_rows s)"
  shows "pg_inv s'" and "assigns (pg_view s) (row_id r) (next_leaf (pg_rows s)) (pg_view s')"
proof -
  let ?n = "next_leaf (pg_rows s)"
  have dist: "distinct (map row_id (pg_rows s))" using inv by (simp add: pg_inv_def)
  then have dist': "distinct (map row_id (pg_rows s'))" by (simp add: s')
  have leafs: "row_leaf q = Some ?n \<or> (\<exists>q0 \<in> set (pg_rows s). row_leaf q = row_leaf q0)"
    if "q \<in> set (pg_rows s')" for q
    using that by (auto simp: s' set_leaf_def)
  show "pg_inv s'"
    unfolding pg_inv_def using dist' leafs inv next_leaf_above(1,2) [OF inv room]
    by (fastforce simp: pg_inv_def)
  have pend: "pg_view s (row_id r) = Some None"
    using r dist by (auto simp: pg_view_iff)
  have "pg_view s' k = ((pg_view s)(row_id r \<mapsto> Some ?n)) k" for k
  proof (cases "k = row_id r")
    case True
    have "r\<lparr>row_leaf := Some ?n\<rparr> \<in> set (pg_rows s')"
      using r(1) by (force simp: s' set_leaf_def)
    then have "\<exists>q \<in> set (pg_rows s'). row_id q = row_id r \<and> row_leaf q = Some ?n"
      by (rule bexI [rotated]) simp
    with True show ?thesis by (simp add: pg_view_iff [OF dist'])
  next
    case False
    then have "map_of (map (\<lambda>q. (row_id q, row_leaf q)) (set_leaf (row_id r) ?n rows)) k
        = map_of (map (\<lambda>q. (row_id q, row_leaf q)) rows) k" for rows
      by (induction rows) (auto simp: set_leaf_def)
    with False show ?thesis by (simp add: pg_view_def s')
  qed
  then have "pg_view s' = (pg_view s)(row_id r \<mapsto> Some ?n)" by blast
  moreover have "l < ?n" if "pg_view s j = Some (Some l)" for j l
    using that next_leaf_above(3) [OF inv room] by (auto simp: pg_view_iff [OF dist])
  ultimately show "assigns (pg_view s) (row_id r) ?n (pg_view s')"
    using pend next_leaf_above(1) [OF inv room] by (simp add: assigns_def)
qed

lemma pg_insert_view:
  assumes "pg_rows s' = insert_row u (pg_rows s)"
  shows "pg_view s' = (if pg_view s u = None then (pg_view s)(u \<mapsto> None) else pg_view s)"
proof (cases "u \<in> row_id ` set (pg_rows s)")
  case True
  then have "pg_view s u \<noteq> None" by (simp add: pg_view_None)
  moreover from True assms have "pg_rows s' = pg_rows s" by (auto simp: insert_row_def)
  ultimately show ?thesis using pg_cong [of s' s] by auto
next
  case False
  then have new: "pg_view s u = None" by (simp add: pg_view_None)
  have rows: "pg_rows s' = pg_rows s @ [\<lparr>row_id = u, row_leaf = None\<rparr>]"
    using False assms by (auto simp: insert_row_def)
  have "pg_view s' k = ((pg_view s)(u \<mapsto> None)) k" for k
    using new by (cases "k = u") (auto simp: pg_view_def rows map_add_def split: option.split)
  with new show ?thesis by auto
qed

lemma pg_insert_inv: "pg_rows s' = insert_row u (pg_rows s) \<Longrightarrow> pg_inv s \<Longrightarrow> pg_inv s'"
  by (auto simp: pg_inv_def insert_row_def split: if_splits)

lemma pg_save_cases:
  assumes "uu i = Some u"
  obtains (lost) s' where "pg_save_evidence uu i s = (Inl DbError, s')" and "pg_rows s' = pg_rows s"
  | (stored) r s' where "pg_save_evidence uu i s = (r, s')" and "pg_rows s' = insert_row u (pg_rows s)"
      and "r = Inl DbError \<or> r = Inr ()"
proof -
  let ?st = "\<lambda>s. ((), s\<lparr>pg_rows := insert_row u (pg_rows s)\<rparr>)"
  have eq: "pg_save_evidence uu i s = pg_exec ?st s" using assms by (simp add: pg_save_evidence_def)
  show ?thesis
  proof (cases rule: pg_exec_cases [of ?st s])
    case before
    with eq lost show ?thesis by simp
  next
    case (after s1 r)
    with eq stored [of r "snd (?st s1)"] show ?thesis by auto
  qed
qed

lemma pg_get_rows [simp]: "pg_rows (snd (pg_get_evidence uu i s)) = pg_rows s"
  by (simp add: pg_get_evidence_def Let_def case_prod_beta split: option.split)

lemma pg_exec_rows:
  assumes "\<And>t. pg_rows (snd (stmt t)) = pg_rows t"
  shows "pg_rows (snd (pg_exec stmt s)) = pg_rows s"
  by (cases rule: pg_exec_cases [of stmt s]) (simp_all add: assms)

lemma pg_audit_rows [simp]: "pg_rows (snd (pg_save_audit uu fresh a s)) = pg_rows s"
  by (auto simp: pg_save_audit_def Let_def pg_exec_rows split: option.split)

lemma pg_list_rows [simp]: "pg_rows (snd (pg_list_audits got n s)) = pg_rows s"
  by (simp add: pg_list_audits_def Let_def case_prod_beta)

text \<open>The ids that a client may use: texts that Postgres reads as themselves.\<close>

definition canonical :: "(string \<Rightarrow> string option) \<Rightarrow> string \<Rightarrow> bool" where
  "canonical uu i \<longleftrightarrow> uu i = Some i"

interpretation pg: idempotent_store "pg_ops uu fresh got" pg_view pg_inv pg_room "canonical uu"
  for uu fresh got
proof
  fix s s' :: pg_store and i :: string and u :: unit and x :: store_error
    and order :: "string list" and e :: evidence and a :: audit_entry and n :: int
  assume inv: "pg_inv s"
  note dist = inv [unfolded pg_inv_def, THEN conjunct1]
  show "pg_inv (snd (get_evidence (pg_ops uu fresh got) i s))
      \<and> pg_view (snd (get_evidence (pg_ops uu fresh got) i s)) = pg_view s"
    and "pg_inv (snd (save_audit (pg_ops uu fresh got) a s))
      \<and> pg_view (snd (save_audit (pg_ops uu fresh got) a s)) = pg_view s"
    and "pg_inv (snd (list_audits (pg_ops uu fresh got) n s))
      \<and> pg_view (snd (list_audits (pg_ops uu fresh got) n s)) = pg_view s"
    using inv by (simp_all add: pg_ops_def pg_cong [OF pg_get_rows] pg_cong [OF pg_audit_rows]
        pg_cong [OF pg_list_rows])
  {
    assume key: "canonical uu i"
    then have uu: "uu i = Some i" by (simp add: canonical_def)
    show "pg_view s i = Some (leaf_index e)"
      if "get_evidence (pg_ops uu fresh got) i s = (Inr e, s')"
    proof -
      from that uu obtain r where "List.find (\<lambda>r. row_id r = i) (pg_rows s) = Some r"
        and "e = \<lparr>ev_id = i, leaf_index = row_leaf r\<rparr>"
        by (auto simp: pg_ops_def pg_get_evidence_def Let_def case_prod_beta
            split: if_splits option.splits)
      with find_Some_in [of "\<lambda>r. row_id r = i" "pg_rows s" r] show ?thesis
        by (auto simp: pg_view_iff [OF dist])
    qed
    note save = pg_save_cases [where uu = uu and i = i and s = s, OF uu]
    show "pg_view (snd (save_evidence (pg_ops uu fresh got) i s)) = pg_view s" if "pg_view s i \<noteq> None"
      using that by (cases rule: save) (auto simp: pg_ops_def pg_insert_view dest!: pg_cong)
    assume new: "pg_view s i = None"
    show "pg_inv (snd (save_evidence (pg_ops uu fresh got) i s))"
      using inv by (cases rule: save) (auto simp: pg_ops_def pg_insert_inv dest!: pg_cong)
    show "pg_view s' = (pg_view s)(i \<mapsto> None)"
      if "save_evidence (pg_ops uu fresh got) i s = (Inr u, s')"
      using that new by (cases rule: save) (auto simp: pg_ops_def pg_insert_view)
    show "pg_view s' = pg_view s \<or> pg_view s' = (pg_view s)(i \<mapsto> None)"
      if "save_evidence (pg_ops uu fresh got) i s = (Inl x, s')"
      using that new by (cases rule: save) (auto simp: pg_ops_def pg_insert_view dest!: pg_cong)
  }
  assume room: "pg_room s"
  note assign = pg_assign_cases [where order = order and s = s]
  show "pg_inv (snd (assign_next_pending_leaf (pg_ops uu fresh got) order s))"
    using inv by (cases rule: assign) (auto simp: pg_ops_def dest: pg_commit(1) [OF inv room] dest!: pg_cong)
  show "\<exists>n. leaf_index e = Some n \<and> assigns (pg_view s) (ev_id e) n (pg_view s')"
    if "assign_next_pending_leaf (pg_ops uu fresh got) order s = (Inr (Some e), s')"
    using that by (cases rule: assign) (auto simp: pg_ops_def dest: pg_commit(2) [OF inv room])
  show "pg_view s' = pg_view s"
    if "assign_next_pending_leaf (pg_ops uu fresh got) order s = (Inr None, s')"
    using that by (cases rule: assign) (auto simp: pg_ops_def dest!: pg_cong)
  show "pg_view s' = pg_view s \<or> (\<exists>k n. assigns (pg_view s) k n (pg_view s'))"
    if "assign_next_pending_leaf (pg_ops uu fresh got) order s = (Inl x, s')"
    using that by (cases rule: assign) (auto simp: pg_ops_def dest: pg_commit(2) [OF inv room] dest!: pg_cong)
qed

subsection \<open>Calls through the interface value keep the contract\<close>

fun any_view :: "any_store \<Rightarrow> leaf_view" where
  "any_view (Mem m) = mem_view m"
| "any_view (Pg p) = pg_view p"

fun any_inv :: "any_store \<Rightarrow> bool" where
  "any_inv (Mem m) = mem_inv m"
| "any_inv (Pg p) = pg_inv p"

fun any_room :: "any_store \<Rightarrow> bool" where
  "any_room (Mem m) = mem_room m"
| "any_room (Pg p) = pg_room p"

lemma lift_mem_result:
  "lift_mem f g (Mem m) = (fst (f m), Mem (snd (f m)))"
  "lift_mem f g (Pg p) = (fst (g p), Pg (snd (g p)))"
  by (simp_all add: case_prod_beta)

lemma any_ops_mem:
  "save_evidence (any_ops uu fresh got) i (Mem m)
     = (fst (save_evidence mem_ops i m), Mem (snd (save_evidence mem_ops i m)))"
  "assign_next_pending_leaf (any_ops uu fresh got) order (Mem m)
     = (fst (assign_next_pending_leaf mem_ops order m), Mem (snd (assign_next_pending_leaf mem_ops order m)))"
  "get_evidence (any_ops uu fresh got) i (Mem m)
     = (fst (get_evidence mem_ops i m), Mem (snd (get_evidence mem_ops i m)))"
  "save_audit (any_ops uu fresh got) a (Mem m)
     = (fst (save_audit mem_ops a m), Mem (snd (save_audit mem_ops a m)))"
  "list_audits (any_ops uu fresh got) n (Mem m)
     = (fst (list_audits mem_ops n m), Mem (snd (list_audits mem_ops n m)))"
  by (simp_all add: any_ops_def mem_ops_def case_prod_beta)

lemma any_ops_pg:
  "save_evidence (any_ops uu fresh got) i (Pg p)
     = (fst (save_evidence (pg_ops uu fresh got) i p), Pg (snd (save_evidence (pg_ops uu fresh got) i p)))"
  "assign_next_pending_leaf (any_ops uu fresh got) order (Pg p)
     = (fst (assign_next_pending_leaf (pg_ops uu fresh got) order p),
        Pg (snd (assign_next_pending_leaf (pg_ops uu fresh got) order p)))"
  "get_evidence (any_ops uu fresh got) i (Pg p)
     = (fst (get_evidence (pg_ops uu fresh got) i p), Pg (snd (get_evidence (pg_ops uu fresh got) i p)))"
  "save_audit (any_ops uu fresh got) a (Pg p)
     = (fst (save_audit (pg_ops uu fresh got) a p), Pg (snd (save_audit (pg_ops uu fresh got) a p)))"
  "list_audits (any_ops uu fresh got) n (Pg p)
     = (fst (list_audits (pg_ops uu fresh got) n p), Pg (snd (list_audits (pg_ops uu fresh got) n p)))"
  by (simp_all add: any_ops_def pg_ops_def case_prod_beta)

interpretation st: evidence_store "any_ops uu fresh got" any_view any_inv any_room "canonical uu"
  for uu fresh got
proof
  fix s s' :: any_store and i :: string and u :: unit and x :: store_error
    and order :: "string list" and e :: evidence and a :: audit_entry and n :: int
  note parts = any_ops_mem any_ops_pg
  assume inv: "any_inv s"
  show "any_inv (snd (get_evidence (any_ops uu fresh got) i s))
      \<and> any_view (snd (get_evidence (any_ops uu fresh got) i s)) = any_view s"
    using inv ms.get_keeps pg.get_keeps by (cases s) (simp_all add: parts)
  show "any_inv (snd (save_audit (any_ops uu fresh got) a s))
      \<and> any_view (snd (save_audit (any_ops uu fresh got) a s)) = any_view s"
    using inv ms.audit_keeps pg.audit_keeps by (cases s) (simp_all add: parts)
  show "any_inv (snd (list_audits (any_ops uu fresh got) n s))
      \<and> any_view (snd (list_audits (any_ops uu fresh got) n s)) = any_view s"
    using inv ms.list_keeps pg.list_keeps by (cases s) (simp_all add: parts)
  {
    assume key: "canonical uu i"
    show "any_view s i = Some (leaf_index e)"
      if "get_evidence (any_ops uu fresh got) i s = (Inr e, s')"
      using that inv key ms.get_done pg.get_done by (cases s) (auto simp: parts prod_eq_iff)
    assume new: "any_view s i = None"
    show "any_inv (snd (save_evidence (any_ops uu fresh got) i s))"
      using inv key new ms.save_keeps pg.save_keeps by (cases s) (simp_all add: parts)
    show "any_view s' = (any_view s)(i \<mapsto> None)"
      if "save_evidence (any_ops uu fresh got) i s = (Inr u, s')"
      using that inv key new ms.save_done pg.save_done by (cases s) (auto simp: parts prod_eq_iff)
    show "any_view s' = any_view s \<or> any_view s' = (any_view s)(i \<mapsto> None)"
      if "save_evidence (any_ops uu fresh got) i s = (Inl x, s')"
    proof (cases s)
      case (Mem m)
      with that inv new ms.save_outcome [of m i] show ?thesis by (auto simp: parts)
    next
      case (Pg p)
      with that inv key new pg.save_outcome [of p uu i fresh got] show ?thesis by (auto simp: parts)
    qed
  }
  assume room: "any_room s"
  show "any_inv (snd (assign_next_pending_leaf (any_ops uu fresh got) order s))"
    using inv room ms.assign_keeps pg.assign_keeps by (cases s) (simp_all add: parts)
  show "\<exists>n. leaf_index e = Some n \<and> assigns (any_view s) (ev_id e) n (any_view s')"
    if "assign_next_pending_leaf (any_ops uu fresh got) order s = (Inr (Some e), s')"
    using that inv room ms.assign_done pg.assign_done by (cases s) (auto simp: parts prod_eq_iff)
  show "any_view s' = any_view s"
    if "assign_next_pending_leaf (any_ops uu fresh got) order s = (Inr None, s')"
    using that inv room ms.assign_none pg.assign_none by (cases s) (auto simp: parts prod_eq_iff)
  show "any_view s' = any_view s \<or> (\<exists>k n. assigns (any_view s) k n (any_view s'))"
    if "assign_next_pending_leaf (any_ops uu fresh got) order s = (Inl x, s')"
  proof (cases s)
    case (Mem m)
    with that inv room ms.assign_outcome [of m order] show ?thesis by (auto simp: parts)
  next
    case (Pg p)
    with that inv room pg.assign_outcome [of p uu fresh got order] show ?thesis by (auto simp: parts)
  qed
qed

subsection \<open>Properties\<close>

lemma mem_view_new [simp]: "mem_view new_memory_store = Map.empty"
  by (rule ext) (simp add: mem_view_def new_memory_store_def)

lemma run_cmds_append: "run_cmds ops (cs @ ds) s = run_cmds ops ds (run_cmds ops cs s)"
  by (induction cs arbitrary: s) auto

lemma all_admissible_append:
  "all_admissible ops view room key (cs @ ds) s \<longleftrightarrow>
     all_admissible ops view room key cs s
     \<and> all_admissible ops view room key ds (run_cmds ops cs s)"
  by (induction cs arbitrary: s) auto

lemma inj_leaves_empty [simp]: "inj_leaves Map.empty"
  by (simp add: inj_leaves_def)

text \<open>C4: In the in-memory store, after any sequence of operations that saves fresh ids and stays
  below the largest index, no two records share a leaf index, the indices given are exactly
  0, 1, ..., next - 1, and every index given earlier in the sequence is still the same.\<close>

theorem mem_store_run:
  assumes "all_admissible mem_ops mem_view mem_room (\<lambda>_. True) (cs @ ds) new_memory_store"
  shows "inj_leaves (mem_view (run_cmds mem_ops (cs @ ds) new_memory_store))
    \<and> {l. \<exists>k. mem_view (run_cmds mem_ops (cs @ ds) new_memory_store) k = Some (Some l)}
      = {0..<ms_next (run_cmds mem_ops (cs @ ds) new_memory_store)}
    \<and> grows (mem_view (run_cmds mem_ops cs new_memory_store))
        (mem_view (run_cmds mem_ops (cs @ ds) new_memory_store))"
proof -
  let ?m = "run_cmds mem_ops cs new_memory_store" and ?n = "run_cmds mem_ops (cs @ ds) new_memory_store"
  from assms have c: "all_admissible mem_ops mem_view mem_room (\<lambda>_. True) cs new_memory_store"
    and d: "all_admissible mem_ops mem_view mem_room (\<lambda>_. True) ds ?m"
    by (simp_all add: all_admissible_append)
  have m: "mem_inv ?m" "inj_leaves (mem_view ?m)"
    using ms.run_keeps [OF _ _ c] by simp_all
  have n: "mem_inv ?n" "inj_leaves (mem_view ?n)" "grows (mem_view ?m) (mem_view ?n)"
    using ms.run_keeps [OF m d] by (simp_all add: run_cmds_append)
  have "{l. \<exists>k. mem_view ?n k = Some (Some l)} = {0..<ms_next ?n}"
    using mem_inv_bounds [OF n(1)] mem_inv_cover [OF n(1)] by auto
  with n show ?thesis by simp
qed

theorem mem_store_run_witness:
  "inj_leaves (mem_view (run_cmds mem_ops
     ([CSave ''a'', CSave ''b''] @ [CAssign [''b'', ''a''], CAssign [''b'', ''a'']]) new_memory_store))"
proof -
  have "all_admissible mem_ops mem_view mem_room (\<lambda>_. True)
      ([CSave ''a'', CSave ''b''] @ [CAssign [''b'', ''a''], CAssign [''b'', ''a'']]) new_memory_store"
    by (simp add: mem_ops_def mem_save_evidence_def mem_assign_def mem_view_def mem_room_def
        mem_pending_def new_memory_store_def max_int64_def wrap64_def Let_def)
  from mem_store_run [OF this] show ?thesis by blast
qed

text \<open>C13: The Postgres store keeps leaf indices distinct and never changes one, over any sequence of
  operations with fresh ids by a single client, even when any round trip to the server is lost
  before or after it takes effect.\<close>

theorem pg_store_run:
  assumes "pg_inv s" and "inj_leaves (pg_view s)"
    and "all_admissible (pg_ops uu fresh got) pg_view pg_room (canonical uu) cs s"
  shows "inj_leaves (pg_view (run_cmds (pg_ops uu fresh got) cs s))
    \<and> grows (pg_view s) (pg_view (run_cmds (pg_ops uu fresh got) cs s))"
  using pg.run_keeps [OF assms] by blast

theorem pg_store_run_witness:
  "grows (pg_view \<lparr>pg_rows = [\<lparr>row_id = ''u1'', row_leaf = Some 0\<rparr>], pg_audit = [],
        pg_net = [LostAfter, LostBefore, Succeeds, LostBefore]\<rparr>)
     (pg_view (run_cmds (pg_ops Some ''f'' 0) [CSave ''u2'', CAssign [], CAssign [], CAssign []]
       \<lparr>pg_rows = [\<lparr>row_id = ''u1'', row_leaf = Some 0\<rparr>], pg_audit = [],
        pg_net = [LostAfter, LostBefore, Succeeds, LostBefore]\<rparr>))"
proof -
  let ?s = "\<lparr>pg_rows = [\<lparr>row_id = ''u1'', row_leaf = Some 0\<rparr>], pg_audit = [],
      pg_net = [LostAfter, LostBefore, Succeeds, LostBefore]\<rparr>"
  have inv: "pg_inv ?s" by (simp add: pg_inv_def max_int64_def)
  have inj: "inj_leaves (pg_view ?s)" by (auto simp: inj_leaves_def pg_view_def split: if_splits)
  have adm: "all_admissible (pg_ops Some ''f'' 0) pg_view pg_room (canonical Some)
      [CSave ''u2'', CAssign [], CAssign [], CAssign []] ?s"
    by (simp add: pg_ops_def pg_save_evidence_def pg_exec_def next_outcome_def pg_assign_def Let_def
        insert_row_def pg_room_def pg_view_def canonical_def max_int64_def set_leaf_def next_leaf_def
        max_leaf_def wrap64_def)
  show ?thesis using pg_store_run [OF inv inj adm] by blast
qed

text \<open>When the connection holds, \<open>AssignNextPendingLeaf\<close> of the Postgres store serves the oldest
  pending record, gives it the index after the largest one in use, and changes no other row; it
  reports nothing to do exactly when no record is pending.\<close>

lemma pg_assign_fifo:
  "pg_assign order \<lparr>pg_rows = rows, pg_audit = au, pg_net = []\<rparr> =
     (case dropWhile (\<lambda>r. row_leaf r \<noteq> None) rows of
        [] \<Rightarrow> (Inr None, \<lparr>pg_rows = rows, pg_audit = au, pg_net = []\<rparr>)
      | r # later \<Rightarrow>
          (Inr (Some \<lparr>ev_id = row_id r, leaf_index = Some (next_leaf rows)\<rparr>),
           \<lparr>pg_rows = set_leaf (row_id r) (next_leaf rows) rows, pg_audit = au, pg_net = []\<rparr>))"
proof -
  define d where "d = dropWhile (\<lambda>r. row_leaf r \<noteq> None) rows"
  have "List.find (\<lambda>r. row_leaf r = None) rs
      = (case dropWhile (\<lambda>r. row_leaf r \<noteq> None) rs of [] \<Rightarrow> None | r # later \<Rightarrow> Some r)" for rs
    by (induction rs) auto
  then have find: "List.find (\<lambda>r. row_leaf r = None) rows
      = (case d of [] \<Rightarrow> None | r # later \<Rightarrow> Some r)" by (simp only: d_def)
  show ?thesis unfolding d_def [symmetric]
    by (cases d) (simp_all add: find pg_assign_def next_outcome_def Let_def)
qed

text \<open>Saving an id that already has a leaf index: the in-memory store forgets the index and makes
  the record pending again, the Postgres store keeps the record as it is.\<close>

lemma store_resave:
  assumes "mem_view m i = Some (Some l)" and "pg_inv s" and "canonical uu i"
    and "pg_view s i = Some (Some l)"
  shows "mem_view (snd (save_evidence mem_ops i m)) i = Some None
    \<and> pg_view (snd (save_evidence (pg_ops uu fresh got) i s)) i = Some (Some l)"
proof -
  have "pg_view (snd (save_evidence (pg_ops uu fresh got) i s)) = pg_view s"
    using assms by (intro pg.save_again) simp_all
  with assms show ?thesis using mem_save_view [of i m] by (simp add: mem_ops_def)
qed

theorem store_resave_witness:
  "mem_view (snd (save_evidence mem_ops ''a'' \<lparr>ms_ev = [(''a'', \<lparr>ev_id = ''a'', leaf_index = Some 0\<rparr>)],
      ms_audits = [], ms_next = 1\<rparr>)) ''a'' = Some None"
proof -
  let ?m = "\<lparr>ms_ev = [(''a'', \<lparr>ev_id = ''a'', leaf_index = Some 0\<rparr>)], ms_audits = [], ms_next = 1\<rparr>"
  let ?s = "\<lparr>pg_rows = [\<lparr>row_id = ''a'', row_leaf = Some 0\<rparr>], pg_audit = [], pg_net = []\<rparr>"
  have "mem_view ?m ''a'' = Some (Some 0)" and "pg_inv ?s" and "canonical Some ''a''"
    and "pg_view ?s ''a'' = Some (Some 0)"
    by (simp_all add: mem_view_def pg_inv_def max_int64_def canonical_def pg_view_def)
  from store_resave [OF this] show ?thesis by blast
qed

end
