(* ===== verification/Vault.thy ===== *)
theory Vault
  imports Jwt Store
begin

text \<open>
  The handlers of \<open>vault-api/handler/ingest.go\<close>. The record \<open>vault\<close> holds the package variables
  and the store that \<open>store.Current()\<close> gives. What one critical section of the mutex does is one
  definition; \<open>buildLatestCheckpoint\<close> composes four of them and releases the mutex in between.
  Arguments stand for what the code takes from outside: \<open>getenv\<close>, the fresh UUID, the clock,
  \<open>post\<close> (an HTTP POST: status and body of the answer, or no answer), \<open>verify\<close> (Ed25519
  signature verification), and the order in which a \<open>range\<close> loop visits the map.
\<close>

subsection \<open>State\<close>

record evidenceRecord =
  rec_id :: string
  rec_leaf :: "int option"

record auditEntry =
  ae_id :: string
  ae_actor :: string
  ae_time :: int

record checkpointPayload =
  pl_tree_size :: int
  pl_root_hash :: string

record checkpointResponse =
  cp_tree_size :: int
  cp_root_hash :: string
  cp_signature :: string
  cp_key_ref :: string

record vault =
  storeMap :: "(string, evidenceRecord) gomap"
  next_index :: int
  audits :: "auditEntry list"
  checkpointHistory :: "(int, checkpointResponse) gomap"
  checkpointOrder :: "int list"
  current_store :: "any_store option"

definition initial_vault :: vault where
  "initial_vault = \<lparr>storeMap = [], next_index = 0, audits = [], checkpointHistory = [],
                    checkpointOrder = [], current_store = None\<rparr>"

subsection \<open>Ingest\<close>

definition ingest_field :: "string \<Rightarrow> json \<Rightarrow> string \<times> bytes \<Rightarrow> (string \<times> bytes) option" where
  "ingest_field k v x =
     (if same_field ''content_type'' k then map_option (\<lambda>t. (t, snd x)) (into_string v (fst x))
      else if same_field ''payload'' k then map_option (\<lambda>b. (fst x, b)) (into_bytes v (snd x))
      else Some x)"

definition decode_ingest :: "string \<Rightarrow> (string \<times> bytes) option" where
  "decode_ingest s =
     (case json_decode_first s of None \<Rightarrow> None | Some v \<Rightarrow> into_struct ingest_field v ([], []))"

text \<open>The critical section: a record without a leaf index, and an audit entry.\<close>

definition ingest_record :: "string \<Rightarrow> string \<Rightarrow> int \<Rightarrow> vault \<Rightarrow> vault" where
  "ingest_record i who now s =
     s\<lparr>storeMap := AList.update i \<lparr>rec_id = i, rec_leaf = None\<rparr> (storeMap s),
       audits := audits s @ [\<lparr>ae_id = i, ae_actor = who, ae_time = now\<rparr>]\<rparr>"

text \<open>The copy into the store, if one is set; its errors are dropped.\<close>

definition ingest_store :: "any_store store_ops \<Rightarrow> string \<Rightarrow> string \<Rightarrow> int \<Rightarrow> vault \<Rightarrow> vault" where
  "ingest_store ops i who now s =
     (case current_store s of
        None \<Rightarrow> s
      | Some st \<Rightarrow>
          (let st1 = snd (save_evidence ops i st);
               st2 = snd (save_audit ops \<lparr>au_id = [], resource_id = i, actor = who, timestamp = now\<rparr> st1)
           in s\<lparr>current_store := Some st2\<rparr>))"

definition ingest_reply :: "string \<Rightarrow> http_response" where
  "ingest_reply i =
     reply_json 202 (jmap [(''id'', JStr i), (''content_hash'', JStr []), (''status'', JStr ''pending'')])"

definition Ingest :: "any_store store_ops \<Rightarrow> string \<Rightarrow> int \<Rightarrow> int \<Rightarrow> vault handler" where
  "Ingest ops fresh now now' ctx req s =
     (case decode_ingest (body req) of
        None \<Rightarrow> (s, Some (bare 400))
      | Some (content_type, payload) \<Rightarrow>
          if payload = [] then (s, Some (bare 400))
          else let who = SubjectFromContext ctx
               in (ingest_store ops fresh who now' (ingest_record fresh who now s),
                   Some (ingest_reply fresh)))"

subsection \<open>The audit log\<close>

definition audit_json :: "auditEntry \<Rightarrow> json" where
  "audit_json a = jmap [(''action'', JStr ''ingest''), (''resource_id'', JStr (ae_id a))]"

text \<open>A nil slice is printed as \<open>null\<close>.\<close>

definition nil_slice :: "json list \<Rightarrow> json" where
  "nil_slice vs = (if vs = [] then JNull else JArr vs)"

definition GetAudit :: "vault handler" where
  "GetAudit ctx req s =
     (if \<not> list_ex (\<lambda>rr. rr = ''auditor'') (RolesFromContext ctx) then (s, Some (bare 403))
      else (s, Some (reply_json 200 (jmap [(''entries'', nil_slice (map audit_json (audits s)))]))))"

subsection \<open>Checkpoints\<close>

definition hasCheckpointAccess :: "request_context \<Rightarrow> bool" where
  "hasCheckpointAccess ctx = list_ex (\<lambda>rr. rr = ''auditor'' \<or> rr = ''ingester'') (RolesFromContext ctx)"

definition zero_root :: string where
  "zero_root = Repeat ''0'' 64"

text \<open>First section: the largest leaf index. The maximum does not depend on the order of \<open>range\<close>.\<close>

definition max_leaf_index :: "vault \<Rightarrow> int" where
  "max_leaf_index s =
     fold (\<lambda>(k, r) m. case rec_leaf r of None \<Rightarrow> m | Some l \<Rightarrow> if l > m then l else m) (storeMap s) (- 1)"

definition current_tree_size :: "vault \<Rightarrow> int" where
  "current_tree_size s =
     (let maxLeaf = max_leaf_index s in if maxLeaf \<ge> 0 then wrap64 (maxLeaf + 1) else 0)"

text \<open>Second section: the checkpoint of this size, if it was published before.\<close>

definition published :: "int \<Rightarrow> vault \<Rightarrow> checkpointResponse option" where
  "published treeSize s = map_of (checkpointHistory s) treeSize"

definition payload_json :: "checkpointPayload \<Rightarrow> json" where
  "payload_json p = JObj [(''tree_size'', jint (pl_tree_size p)), (''root_hash'', JStr (pl_root_hash p))]"

definition payload_bytes :: "int \<Rightarrow> string \<Rightarrow> string" where
  "payload_bytes treeSize rootHash =
     json_print (payload_json \<lparr>pl_tree_size = treeSize, pl_root_hash = rootHash\<rparr>)"

definition nonempty_or :: "string option \<Rightarrow> string \<Rightarrow> string" where
  "nonempty_or x d = (case x of Some s \<Rightarrow> if s \<noteq> [] then s else d | None \<Rightarrow> d)"

text \<open>Without the mutex: the signing request.\<close>

definition sign_checkpoint ::
  "env \<Rightarrow> (string \<Rightarrow> string \<Rightarrow> (int \<times> string) option) \<Rightarrow> int \<Rightarrow> checkpointResponse" where
  "sign_checkpoint getenv post treeSize =
     (let svc = getenv ''CHECKPOINT_SIGNING_URL'';
          got = (if svc = [] then None
                 else case post svc (payload_bytes treeSize zero_root) of
                   None \<Rightarrow> None
                 | Some (st, answer) \<Rightarrow>
                     if st = 200 then Option.bind (json_decode_first answer) into_string_map else None)
      in \<lparr>cp_tree_size = treeSize, cp_root_hash = zero_root,
          cp_signature = nonempty_or (Option.bind got (\<lambda>m. map_of m ''signature'')) (Repeat ''a'' 64),
          cp_key_ref = nonempty_or (Option.bind got (\<lambda>m. map_of m ''key_ref'')) ''local:dev-default''\<rparr>)"

text \<open>Third section: publication.\<close>

definition publish :: "checkpointResponse \<Rightarrow> vault \<Rightarrow> vault" where
  "publish cp s =
     (let ts = cp_tree_size cp
      in s\<lparr>checkpointOrder := (if map_of (checkpointHistory s) ts = None
                               then checkpointOrder s @ [ts] else checkpointOrder s),
           checkpointHistory := AList.update ts cp (checkpointHistory s)\<rparr>)"

definition buildLatestCheckpoint ::
  "env \<Rightarrow> (string \<Rightarrow> string \<Rightarrow> (int \<times> string) option) \<Rightarrow> request_context \<Rightarrow> vault \<Rightarrow>
     vault \<times> (int + checkpointResponse)" where
  "buildLatestCheckpoint getenv post ctx s =
     (if \<not> hasCheckpointAccess ctx then (s, Inl 403)
      else let treeSize = current_tree_size s
      in if treeSize = 0 then (s, Inl 404)
      else case published treeSize s of
             Some cp \<Rightarrow> (s, Inr cp)
           | None \<Rightarrow> (let cp = sign_checkpoint getenv post treeSize in (publish cp s, Inr cp)))"

definition checkpoint_json :: "checkpointResponse \<Rightarrow> json" where
  "checkpoint_json cp =
     JObj ([(''tree_size'', jint (cp_tree_size cp)), (''root_hash'', JStr (cp_root_hash cp)),
            (''signature'', JStr (cp_signature cp))]
           @ (if cp_key_ref cp = [] then [] else [(''key_ref'', JStr (cp_key_ref cp))]))"

definition GetCheckpointsLatest ::
  "env \<Rightarrow> (string \<Rightarrow> string \<Rightarrow> (int \<times> string) option) \<Rightarrow> vault handler" where
  "GetCheckpointsLatest getenv post ctx req s =
     (case buildLatestCheckpoint getenv post ctx s of
        (s', Inl st) \<Rightarrow> (s', Some (bare st))
      | (s', Inr cp) \<Rightarrow> (s', Some (reply_json 200 (checkpoint_json cp))))"

text \<open>A map lookup of a missing key gives the zero value.\<close>

definition zero_checkpoint :: checkpointResponse where
  "zero_checkpoint = \<lparr>cp_tree_size = 0, cp_root_hash = [], cp_signature = [], cp_key_ref = []\<rparr>"

definition history_entries :: "vault \<Rightarrow> checkpointResponse list" where
  "history_entries s =
     map (\<lambda>ts. case map_of (checkpointHistory s) ts of None \<Rightarrow> zero_checkpoint | Some cp \<Rightarrow> cp)
       (rev (checkpointOrder s))"

definition GetCheckpointsHistory ::
  "env \<Rightarrow> (string \<Rightarrow> string \<Rightarrow> (int \<times> string) option) \<Rightarrow> vault handler" where
  "GetCheckpointsHistory getenv post ctx req s =
     (if \<not> hasCheckpointAccess ctx then (s, Some (bare 403))
      else let s' = fst (buildLatestCheckpoint getenv post ctx s)
           in (s', Some (reply_json 200 (jmap [(''entries'', JArr (map checkpoint_json (history_entries s')))]))))"

subsection \<open>Verification of a checkpoint\<close>

definition verdict_error :: "string \<Rightarrow> http_response" where
  "verdict_error reason =
     \<lparr>status = 503, headers = [],
      content = json_encode_line (jmap [(''verified'', JBool False), (''reason'', JStr reason)])\<rparr>"

definition verifyCheckpointResponse ::
  "env \<Rightarrow> (bytes \<Rightarrow> bytes \<Rightarrow> bytes \<Rightarrow> bool) \<Rightarrow> checkpointResponse \<Rightarrow> http_response" where
  "verifyCheckpointResponse getenv verify cp =
     (let pubB64 = TrimSpace (getenv ''CHECKPOINT_VERIFY_PUBLIC_KEY_B64'')
      in if pubB64 = [] then verdict_error ''missing CHECKPOINT_VERIFY_PUBLIC_KEY_B64''
      else case b64_decode pubB64 of
        None \<Rightarrow> verdict_error ''invalid CHECKPOINT_VERIFY_PUBLIC_KEY_B64''
      | Some pubRaw \<Rightarrow>
          if length pubRaw \<noteq> 32 then verdict_error ''invalid CHECKPOINT_VERIFY_PUBLIC_KEY_B64''
          else let payload = payload_bytes (cp_tree_size cp) (cp_root_hash cp)
      in case b64_decode (cp_signature cp) of
        None \<Rightarrow>
          reply_json 200 (jmap [(''verified'', JBool False), (''reason'', JStr ''checkpoint signature is not base64''),
            (''tree_size'', jint (cp_tree_size cp)), (''root_hash'', JStr (cp_root_hash cp)),
            (''key_ref'', JStr (cp_key_ref cp))])
      | Some sig \<Rightarrow>
          reply_json 200 (jmap [(''verified'', JBool (verify pubRaw payload sig)),
            (''tree_size'', jint (cp_tree_size cp)), (''root_hash'', JStr (cp_root_hash cp)),
            (''signature'', JStr (cp_signature cp)), (''key_ref'', JStr (cp_key_ref cp))]))"

definition VerifyLatestCheckpoint ::
  "env \<Rightarrow> (string \<Rightarrow> string \<Rightarrow> (int \<times> string) option) \<Rightarrow> (bytes \<Rightarrow> bytes \<Rightarrow> bytes \<Rightarrow> bool) \<Rightarrow> vault handler" where
  "VerifyLatestCheckpoint getenv post verify ctx req s =
     (case buildLatestCheckpoint getenv post ctx s of
        (s', Inl st) \<Rightarrow> (s', Some (bare st))
      | (s', Inr cp) \<Rightarrow> (s', Some (verifyCheckpointResponse getenv verify cp)))"

definition checkpoints_prefix :: string where
  "checkpoints_prefix = ''/api/v1/checkpoints/''"

definition VerifyCheckpointByTreeSize ::
  "env \<Rightarrow> (bytes \<Rightarrow> bytes \<Rightarrow> bytes \<Rightarrow> bool) \<Rightarrow> vault handler" where
  "VerifyCheckpointByTreeSize getenv verify ctx req s =
     (s, Some (
      if \<not> hasCheckpointAccess ctx then bare 403
      else if \<not> HasPrefix (path req) checkpoints_prefix \<or> \<not> HasSuffix (path req) ''/verify'' then bare 404
      else case ParseInt64 (Trim1 (TrimSuffix (TrimPrefix (path req) checkpoints_prefix) ''/verify'') (CHR ''/'')) of
        None \<Rightarrow> bare 400
      | Some treeSize \<Rightarrow>
          if treeSize \<le> 0 then bare 400
          else case published treeSize s of
            None \<Rightarrow> bare 404
          | Some cp \<Rightarrow> verifyCheckpointResponse getenv verify cp))"

subsection \<open>Evidence and proofs\<close>

definition evidence_prefix :: string where
  "evidence_prefix = ''/api/v1/evidence/''"

definition leaf_json :: "int option \<Rightarrow> json" where
  "leaf_json l = (case l of None \<Rightarrow> JNull | Some i \<Rightarrow> jint i)"

text \<open>Slicing past the end of the path panics. The code reads the leaf index of the record that it found
  after it has released the lock; the model reads it at once. A record is never removed and its
  index, once there, never changes, so the answer is that of the handler run as a whole at the time
  of the later read.\<close>

definition GetEvidence :: "any_store store_ops \<Rightarrow> vault handler" where
  "GetEvidence ops ctx req s =
     (if length (path req) < length evidence_prefix then (s, None)
      else let i = drop (length evidence_prefix) (path req)
      in case current_store s of
        Some st \<Rightarrow>
          (case get_evidence ops i st of
             (Inl _, st') \<Rightarrow> (s\<lparr>current_store := Some st'\<rparr>, Some (bare 404))
           | (Inr ev, st') \<Rightarrow>
               (s\<lparr>current_store := Some st'\<rparr>,
                Some (reply_json 200 (jmap [(''leaf_index'', leaf_json (leaf_index ev))]))))
      | None \<Rightarrow>
          (case map_of (storeMap s) i of
             None \<Rightarrow> (s, Some (bare 404))
           | Some r \<Rightarrow> (s, Some (reply_json 200 (jmap [(''leaf_index'', leaf_json (rec_leaf r))])))))"

definition strip_proof :: "string \<Rightarrow> string" where
  "strip_proof i =
     (if length i > 6 \<and> drop (length i - 6) i = ''/proof'' then take (length i - 6) i else i)"

definition GetProof :: "vault handler" where
  "GetProof ctx req s =
     (s, if length (path req) < length evidence_prefix then None
         else case map_of (storeMap s) (strip_proof (drop (length evidence_prefix) (path req))) of
           None \<Rightarrow> Some (bare 404)
         | Some r \<Rightarrow>
             (case rec_leaf r of
                None \<Rightarrow> Some (bare 404)
              | Some l \<Rightarrow>
                  Some (reply_json 200 (jmap [(''leaf_index'', jint l), (''tree_size'', jint (wrap64 (l + 1))),
                    (''root'', JStr zero_root), (''path'', JArr [])]))))"

subsection \<open>The committer\<close>

definition record_pending :: "vault \<Rightarrow> string \<Rightarrow> bool" where
  "record_pending s k = (case map_of (storeMap s) k of None \<Rightarrow> False | Some r \<Rightarrow> rec_leaf r = None)"

text \<open>The memory fallback: the first pending record in the order of the loop gets the next index.\<close>

definition commit_memory :: "string list \<Rightarrow> vault \<Rightarrow> vault" where
  "commit_memory order s =
     (case List.find (record_pending s) order of
        None \<Rightarrow> s
      | Some k \<Rightarrow>
          (let r = (the (map_of (storeMap s) k))\<lparr>rec_leaf := Some (next_index s)\<rparr>
           in s\<lparr>storeMap := AList.update k r (storeMap s), next_index := wrap64 (next_index s + 1)\<rparr>))"

text \<open>The index that the store assigned is copied into the record of the same id, if there is one.\<close>

definition commit_copy :: "evidence \<Rightarrow> vault \<Rightarrow> vault" where
  "commit_copy ev s =
     (case map_of (storeMap s) (ev_id ev) of
        None \<Rightarrow> s
      | Some r \<Rightarrow> s\<lparr>storeMap := AList.update (ev_id ev) (r\<lparr>rec_leaf := leaf_index ev\<rparr>) (storeMap s)\<rparr>)"

text \<open>One round of the loop in \<open>StartCommitter\<close>, after the sleep.\<close>

definition committer_tick :: "any_store store_ops \<Rightarrow> string list \<Rightarrow> string list \<Rightarrow> vault \<Rightarrow> vault" where
  "committer_tick ops store_order order s =
     (case current_store s of
        None \<Rightarrow> commit_memory order s
      | Some st \<Rightarrow>
          (case assign_next_pending_leaf ops store_order st of
             (Inr (Some ev), st') \<Rightarrow> commit_copy ev (s\<lparr>current_store := Some st'\<rparr>)
           | (_, st') \<Rightarrow> commit_memory order (s\<lparr>current_store := Some st'\<rparr>)))"

subsection \<open>A sample request\<close>

text \<open>A request body that ingests one byte.\<close>

definition demo_body :: string where
  "demo_body = json_print (JObj [(''payload'', JStr (b64_encode ''A''))])"

definition demo_request :: "string \<Rightarrow> http_request" where
  "demo_request p = \<lparr>http_method = ''GET'', path = p, raw_path = [], authorization = [], body = demo_body\<rparr>"

lemma decode_demo_body: "decode_ingest demo_body = Some ([], ''A'')"
proof -
  have "b64_encode ''A'' = ''QQ==''" by code_simp
  then have "valid_utf8 (b64_encode ''A'')" by (simp add: valid_utf8_ascii)
  then have "json_decode_first (demo_body @ []) = Some (JObj [(''payload'', JStr (b64_encode ''A''))])"
    unfolding demo_body_def by (intro json_roundtrip_first) (simp_all add: valid_utf8_ascii max_depth_def)
  then show ?thesis
    by (simp add: decode_ingest_def into_struct_def ingest_field_def same_field_def del: b64_encode.simps)
      (simp add: fold_ascii_plain ascii_lower_def plain_def char_of_eq_iff)
qed

definition auditor_ctx :: request_context where
  "auditor_ctx = with_identity [''auditor''] ''alice'' background"

end
