(* ===== verification/VaultRuns.thy ===== *)
theory VaultRuns
  imports "HOL-Library.Sublist" Vault
begin

text \<open>
  What holds over whole runs of the handlers of \<open>Vault\<close>: the memory path behaves as the in-memory
  store, all interleavings of critical sections keep the invariant \<open>sys_inv\<close>, and requests that
  run one after another keep the stronger \<open>seq_inv\<close>.
\<close>

subsection \<open>The memory path refines the in-memory store\<close>

definition to_evidence :: "evidenceRecord \<Rightarrow> evidence" where
  "to_evidence r = \<lparr>ev_id = rec_id r, leaf_index = rec_leaf r\<rparr>"

definition to_audit :: "auditEntry \<Rightarrow> audit_entry" where
  "to_audit a = \<lparr>au_id = [], resource_id = ae_id a, actor = ae_actor a, timestamp = ae_time a\<rparr>"

text \<open>The package variables read as an in-memory store.\<close>

definition vault_mem :: "vault \<Rightarrow> mem_store" where
  "vault_mem s =
     \<lparr>ms_ev = map (\<lambda>(k, r). (k, to_evidence r)) (storeMap s), ms_audits = map to_audit (audits s),
      ms_next = next_index s\<rparr>"

abbreviation vault_leaf :: "vault \<Rightarrow> leaf_view" where
  "vault_leaf s \<equiv> mem_view (vault_mem s)"

lemma update_map_values:
  "map (\<lambda>(k, r). (k, f r)) (AList.update k v m) = AList.update k (f v) (map (\<lambda>(k, r). (k, f r)) m)"
  by (induction m) auto

lemma map_of_map_values: "map_of (map (\<lambda>(k, r). (k, f r)) m) k = map_option f (map_of m k)"
  by (induction m) auto

lemma vault_leaf_lookup: "vault_leaf s k = map_option rec_leaf (map_of (storeMap s) k)"
  by (cases "map_of (storeMap s) k") (simp_all add: mem_view_def vault_mem_def map_of_map_values to_evidence_def)

lemma vault_mem_next [simp]: "ms_next (vault_mem s) = next_index s"
  by (simp add: vault_mem_def)

lemma record_pending_mem: "record_pending s k \<longleftrightarrow> mem_pending (vault_mem s) k"
  by (simp add: mem_view_defined vault_leaf_lookup record_pending_def split: option.split)

lemma vault_mem_ingest:
  "vault_mem (ingest_record i who now s) =
     snd (mem_save_audit \<lparr>au_id = [], resource_id = i, actor = who, timestamp = now\<rparr>
            (snd (mem_save_evidence i (vault_mem s))))"
  by (simp add: vault_mem_def ingest_record_def mem_save_audit_def mem_save_evidence_def
      update_map_values to_evidence_def to_audit_def)

lemma vault_mem_commit: "vault_mem (commit_memory order s) = snd (mem_assign order (vault_mem s))"
proof -
  have find: "List.find (record_pending s) order = List.find (mem_pending (vault_mem s)) order"
    by (rule find_cong) (simp_all add: record_pending_mem)
  show ?thesis
  proof (cases "List.find (mem_pending (vault_mem s)) order")
    case None
    then show ?thesis by (simp add: commit_memory_def find mem_assign_def)
  next
    case (Some k)
    then have "record_pending s k" using find_Some_in record_pending_mem by metis
    then obtain r where r: "map_of (storeMap s) k = Some r"
      by (auto simp: record_pending_def split: option.splits)
    with Some show ?thesis
      by (simp add: commit_memory_def find mem_assign_def Let_def vault_mem_def map_of_map_values
          update_map_values to_evidence_def)
  qed
qed

text \<open>C8: The handler's own maps, which serve when no store is set, behave as the in-memory store
  does: a recorded ingest is \<open>SaveEvidence\<close> followed by \<open>SaveAudit\<close>, and a round of the committer
  is \<open>AssignNextPendingLeaf\<close>.\<close>

theorem memory_refines_store:
  "vault_mem (ingest_record i who now s) =
     run_cmds mem_ops [CSave i, CAudit \<lparr>au_id = [], resource_id = i, actor = who, timestamp = now\<rparr>] (vault_mem s)
   \<and> (current_store s = None \<longrightarrow>
        vault_mem (committer_tick ops store_order order s) = run_cmd mem_ops (CAssign order) (vault_mem s))"
  by (simp add: vault_mem_ingest vault_mem_commit committer_tick_def) (simp add: mem_ops_def)

lemma memory_refines_store_witness:
  "vault_mem (committer_tick (any_ops Some [] 0) [] [''a''] (ingest_record ''a'' [] 0 initial_vault)) =
     run_cmd mem_ops (CAssign [''a'']) (vault_mem (ingest_record ''a'' [] 0 initial_vault))"
  using memory_refines_store [of "''a''" "[]" 0 "ingest_record ''a'' [] 0 initial_vault" "any_ops Some [] 0" "[]" "[''a'']"]
  by (simp add: ingest_record_def initial_vault_def)

subsection \<open>Tree sizes\<close>

lemma fold_max_leaf:
  "fold (\<lambda>(k, r) m. case rec_leaf r of None \<Rightarrow> m | Some l \<Rightarrow> if l > m then l else m) xs b = m \<Longrightarrow>
     b \<le> m \<and> (\<forall>(k, r) \<in> set xs. \<forall>l. rec_leaf r = Some l \<longrightarrow> l \<le> m)
     \<and> (m = b \<or> (\<exists>(k, r) \<in> set xs. rec_leaf r = Some m))"
proof (induction xs arbitrary: b)
  case (Cons x xs)
  obtain k r where x: "x = (k, r)" by force
  from Cons.IH Cons.prems show ?case
    by (cases "rec_leaf r") (force simp: x split: if_splits)+
qed simp

lemma current_tree_size_next:
  assumes inv: "mem_inv (vault_mem s)" and room: "next_index s < max_int64"
  shows "current_tree_size s = next_index s"
proof -
  let ?m = "max_leaf_index s"
  have ok: "gm_ok (storeMap s)"
    using inv by (simp add: mem_inv_def vault_mem_def comp_def case_prod_unfold)
  have nonneg: "0 \<le> next_index s" using inv by (simp add: mem_inv_def)
  from fold_max_leaf [where xs = "storeMap s" and b = "- 1", OF refl]
  have top: "- 1 \<le> ?m" "\<And>k r l. (k, r) \<in> set (storeMap s) \<Longrightarrow> rec_leaf r = Some l \<Longrightarrow> l \<le> ?m"
    and hit: "?m = - 1 \<or> (\<exists>(k, r) \<in> set (storeMap s). rec_leaf r = Some ?m)"
    unfolding max_leaf_index_def by blast+
  have below: "?m < next_index s"
  proof (cases "?m = - 1")
    case False
    with hit obtain k r where "(k, r) \<in> set (storeMap s)" "rec_leaf r = Some ?m" by blast
    then have "vault_leaf s k = Some (Some ?m)" using ok by (simp add: vault_leaf_lookup)
    then show ?thesis using mem_inv_bounds [OF inv] by simp
  qed (use nonneg in simp)
  have "next_index s - 1 \<le> ?m"
  proof (cases "next_index s = 0")
    case False
    then obtain k where "vault_leaf s k = Some (Some (next_index s - 1))"
      using mem_inv_cover [OF inv, of "next_index s - 1"] nonneg by auto
    then obtain r where "map_of (storeMap s) k = Some r" "rec_leaf r = Some (next_index s - 1)"
      by (auto simp: vault_leaf_lookup)
    then show ?thesis using top(2) [OF map_of_SomeD] by blast
  qed (use top(1) in simp)
  with below have "?m = next_index s - 1" by simp
  then show ?thesis
    using nonneg room by (simp add: current_tree_size_def Let_def in_int64_def max_int64_def min_int64_def)
qed

subsection \<open>Requests running at the same time\<close>

text \<open>
  The critical sections of requests and of the committer interleave. A request for the latest
  checkpoint is first \<open>looking\<close> (it has computed a tree size), then \<open>signing\<close> (it found no
  published checkpoint), then publishes. The environment and the signing service may answer each
  request differently. No store is set. The relation allows more than the handlers do: the order in
  which a committer round visits the map is any list, and every step has an environment of its own.
  What is proved of all its runs holds of theirs. A commit has a free index as its side condition.
\<close>

record system =
  vlt :: vault
  looking :: "int list"
  signing :: "int list"

definition initial_system :: system where
  "initial_system = \<lparr>vlt = initial_vault, looking = [], signing = []\<rparr>"

inductive sys_step :: "system \<Rightarrow> system \<Rightarrow> bool" where
  ingest: "map_of (storeMap (vlt t)) i = None \<Longrightarrow> sys_step t (t\<lparr>vlt := ingest_record i who now (vlt t)\<rparr>)"
| commit: "next_index (vlt t) < max_int64 - 1 \<Longrightarrow> sys_step t (t\<lparr>vlt := commit_memory order (vlt t)\<rparr>)"
| compute: "current_tree_size (vlt t) \<noteq> 0 \<Longrightarrow>
    sys_step t (t\<lparr>looking := current_tree_size (vlt t) # looking t\<rparr>)"
| hit: "ts \<in> set (looking t) \<Longrightarrow> published ts (vlt t) \<noteq> None \<Longrightarrow>
    sys_step t (t\<lparr>looking := remove1 ts (looking t)\<rparr>)"
| miss: "ts \<in> set (looking t) \<Longrightarrow> published ts (vlt t) = None \<Longrightarrow>
    sys_step t (t\<lparr>looking := remove1 ts (looking t), signing := ts # signing t\<rparr>)"
| answer: "ts \<in> set (signing t) \<Longrightarrow>
    sys_step t (t\<lparr>vlt := publish (sign_checkpoint getenv post ts) (vlt t), signing := remove1 ts (signing t)\<rparr>)"

inductive_cases sys_stepE: "sys_step t t'"

definition vault_inv :: "vault \<Rightarrow> bool" where
  "vault_inv v \<longleftrightarrow>
     mem_inv (vault_mem v) \<and> inj_leaves (vault_leaf v) \<and> next_index v < max_int64
     \<and> distinct (checkpointOrder v) \<and> set (checkpointOrder v) = dom (map_of (checkpointHistory v))
     \<and> (\<forall>ts cp. map_of (checkpointHistory v) ts = Some cp \<longrightarrow>
          cp_tree_size cp = ts \<and> cp_root_hash cp = zero_root \<and> 0 < ts \<and> ts \<le> next_index v)"

definition sys_inv :: "system \<Rightarrow> bool" where
  "sys_inv t \<longleftrightarrow> vault_inv (vlt t) \<and> (\<forall>ts \<in> set (looking t) \<union> set (signing t). 0 < ts \<and> ts \<le> next_index (vlt t))"

lemma sign_checkpoint_sels [simp]:
  "cp_tree_size (sign_checkpoint getenv post ts) = ts"
  "cp_root_hash (sign_checkpoint getenv post ts) = zero_root"
  by (simp_all add: sign_checkpoint_def Let_def)

lemma vault_sections_sels [simp]:
  "checkpointOrder (ingest_record i who now v) = checkpointOrder v"
  "checkpointHistory (ingest_record i who now v) = checkpointHistory v"
  "next_index (ingest_record i who now v) = next_index v"
  "current_store (ingest_record i who now v) = current_store v"
  "checkpointOrder (commit_memory order v) = checkpointOrder v"
  "checkpointHistory (commit_memory order v) = checkpointHistory v"
  "current_store (commit_memory order v) = current_store v"
  "vault_mem (publish cp v) = vault_mem v"
  "next_index (publish cp v) = next_index v"
  "current_store (publish cp v) = current_store v"
  by (simp_all add: ingest_record_def commit_memory_def publish_def vault_mem_def Let_def split: option.split)

lemma initial_inv [simp]: "vault_inv initial_vault" "sys_inv initial_system"
proof -
  have "vault_mem initial_vault = new_memory_store"
    by (simp add: vault_mem_def initial_vault_def new_memory_store_def)
  moreover have "mem_view new_memory_store = Map.empty"
    by (rule ext) (simp add: mem_view_def new_memory_store_def)
  ultimately show "vault_inv initial_vault"
    by (simp add: vault_inv_def) (simp add: initial_vault_def max_int64_def)
  then show "sys_inv initial_system" by (simp add: sys_inv_def initial_system_def)
qed

lemma ingest_inv:
  assumes "vault_inv v" "map_of (storeMap v) i = None"
  shows "vault_inv (ingest_record i who now v)"
    "vault_leaf (ingest_record i who now v) = (vault_leaf v)(i \<mapsto> None)"
proof -
  have none: "vault_leaf v i = None" using assms(2) by (simp add: vault_leaf_lookup)
  show view: "vault_leaf (ingest_record i who now v) = (vault_leaf v)(i \<mapsto> None)"
    by (simp add: vault_mem_ingest mem_audit_view mem_save_view)
  have "mem_inv (vault_mem (ingest_record i who now v))"
    using assms(1) none mem_save_inv [of "vault_mem v" i]
    by (simp add: vault_mem_ingest mem_audit_view vault_inv_def)
  moreover have "inj_leaves (vault_leaf (ingest_record i who now v))"
    unfolding view using assms(1) by (intro save_inj) (simp add: vault_inv_def)
  ultimately show "vault_inv (ingest_record i who now v)"
    using assms(1) by (simp add: vault_inv_def)
qed

lemma commit_inv:
  assumes "vault_inv v" "next_index v < max_int64 - 1"
  shows "vault_inv (commit_memory order v)" "next_index v \<le> next_index (commit_memory order v)"
    "grows (vault_leaf v) (vault_leaf (commit_memory order v))"
proof -
  have room: "mem_room (vault_mem v)" using assms(2) by (simp add: mem_room_def)
  have mem: "mem_inv (vault_mem v)" "inj_leaves (vault_leaf v)"
    using assms(1) by (simp_all add: vault_inv_def)
  have keep: "mem_inv (vault_mem (commit_memory order v))"
    unfolding vault_mem_commit by (rule mem_assign_inv [OF mem(1) room])
  from mem(1) room have step:
    "next_index (commit_memory order v) \<in> {next_index v, next_index v + 1}
     \<and> (vault_leaf (commit_memory order v) = vault_leaf v
        \<or> (\<exists>k. assigns (vault_leaf v) k (next_index v) (vault_leaf (commit_memory order v))))"
    by (cases rule: mem_assign_cases [where order = order])
      (auto simp: vault_mem_commit simp flip: vault_mem_next)
  then show "next_index v \<le> next_index (commit_memory order v)" by auto
  show "grows (vault_leaf v) (vault_leaf (commit_memory order v))"
    using step assigns_grows by fastforce
  have "inj_leaves (vault_leaf (commit_memory order v))"
    using step assigns_inj mem(2) by fastforce
  with keep step show "vault_inv (commit_memory order v)"
    using assms by (auto simp: vault_inv_def) (smt (verit))+
qed

lemma publish_inv:
  assumes "vault_inv v" "0 < cp_tree_size cp" "cp_tree_size cp \<le> next_index v" "cp_root_hash cp = zero_root"
  shows "vault_inv (publish cp v)"
  using assms
  by (auto simp: vault_inv_def) (auto simp: publish_def Let_def split: if_splits)

lemmas [inv_intros] = initial_inv ingest_inv(1) commit_inv(1) publish_inv

text \<open>What is never taken back: leaf indices, the publication order, and which sizes are published.\<close>

definition vault_grows :: "vault \<Rightarrow> vault \<Rightarrow> bool" where
  "vault_grows v v' \<longleftrightarrow>
     grows (vault_leaf v) (vault_leaf v') \<and> next_index v \<le> next_index v'
     \<and> prefix (checkpointOrder v) (checkpointOrder v')
     \<and> prefix (audits v) (audits v')"

lemma vault_grows_refl [simp]: "vault_grows v v"
  by (simp add: vault_grows_def)

lemma vault_grows_trans: "vault_grows u v \<Longrightarrow> vault_grows v w \<Longrightarrow> vault_grows u w"
  unfolding vault_grows_def by (meson grows_trans order_trans prefix_order.order_trans)

lemma publish_grows: "vault_grows v (publish cp v)"
  by (simp add: vault_grows_def) (simp add: publish_def Let_def)

lemma commit_grows:
  "vault_inv v \<Longrightarrow> next_index v < max_int64 - 1 \<Longrightarrow> vault_grows v (commit_memory order v)"
  using commit_inv [of v order]
  by (simp add: vault_grows_def) (simp add: commit_memory_def Let_def split: option.split)

lemma ingest_grows:
  "vault_inv v \<Longrightarrow> map_of (storeMap v) i = None \<Longrightarrow> vault_grows v (ingest_record i who now v)"
  using ingest_inv(2) [of v i who now] save_grows [of "vault_leaf v" i]
  by (simp add: vault_grows_def vault_leaf_lookup) (simp add: ingest_record_def)

lemma sys_step_keeps:
  assumes "sys_step t t'" "sys_inv t"
  shows "sys_inv t' \<and> vault_grows (vlt t) (vlt t')"
  using assms(1)
proof (cases rule: sys_stepE [case_names ingest commit compute hit miss answer, consumes 1])
  case (ingest i who now)
  then show ?thesis
    using assms(2) ingest_inv(1) ingest_grows by (simp add: sys_inv_def)
next
  case (commit order)
  have "vault_inv (vlt t)" using assms(2) by (simp add: sys_inv_def)
  then have "vault_inv (vlt t')" "next_index (vlt t) \<le> next_index (vlt t')"
    "vault_grows (vlt t) (vlt t')"
    using commit_inv(1,2) [OF _ commit(2), of order] commit_grows [OF _ commit(2), of order]
    unfolding commit(1) by simp_all
  moreover have "looking t' = looking t" "signing t' = signing t" using commit by simp_all
  ultimately show ?thesis using assms(2) unfolding sys_inv_def by (auto intro: order_trans [rotated])
next
  case compute
  have "current_tree_size (vlt t) = next_index (vlt t)" "0 \<le> next_index (vlt t)"
    using assms(2) current_tree_size_next by (simp_all add: sys_inv_def vault_inv_def mem_inv_def)
  with compute assms(2) show ?thesis by (simp add: sys_inv_def)
next
  case (hit ts cp)
  then show ?thesis using assms(2) by (auto simp: sys_inv_def dest: subsetD [OF set_remove1_subset])
next
  case (miss ts)
  then show ?thesis using assms(2) by (auto simp: sys_inv_def dest: subsetD [OF set_remove1_subset])
next
  case (answer ts getenv post)
  then have "vault_inv (vlt t')"
    using assms(2) publish_inv by (simp add: sys_inv_def)
  with answer assms(2) publish_grows show ?thesis
    by (auto simp: sys_inv_def dest: subsetD [OF set_remove1_subset])
qed

lemma sys_steps_keep:
  assumes "sys_step\<^sup>*\<^sup>* t t'" "sys_inv t"
  shows "sys_inv t' \<and> vault_grows (vlt t) (vlt t')"
  using assms
proof (induction rule: rtranclp_induct)
  case (step u w)
  then show ?case using sys_step_keeps vault_grows_trans by blast
qed simp

text \<open>C2: However ingests, commits and checkpoint requests interleave: no two records share a leaf
  index, the indices given are exactly 0 to next - 1, the tree size computed from them is their
  number, every published checkpoint is filed under its own tree size, which is between 1 and
  that number, and the publication order lists each published size once.\<close>

theorem vault_interleaving_safe:
  assumes "sys_step\<^sup>*\<^sup>* initial_system t"
  defines "v \<equiv> vlt t"
  shows "inj_leaves (vault_leaf v)
     \<and> {l. \<exists>k. vault_leaf v k = Some (Some l)} = {0..<next_index v}
     \<and> current_tree_size v = int (card {k. \<exists>l. vault_leaf v k = Some (Some l)})
     \<and> distinct (checkpointOrder v) \<and> set (checkpointOrder v) = dom (map_of (checkpointHistory v))
     \<and> (\<forall>ts cp. map_of (checkpointHistory v) ts = Some cp \<longrightarrow>
          cp_tree_size cp = ts \<and> 0 < ts \<and> ts \<le> current_tree_size v)"
proof -
  have inv: "vault_inv v" using sys_steps_keep [OF assms(1) initial_inv(2)] by (simp add: v_def sys_inv_def)
  then have mem: "mem_inv (vault_mem v)" and inj: "inj_leaves (vault_leaf v)"
    by (simp_all add: vault_inv_def)
  have size: "current_tree_size v = next_index v"
    using inv current_tree_size_next by (simp add: vault_inv_def)
  have leaves: "{l. \<exists>k. vault_leaf v k = Some (Some l)} = {0..<next_index v}"
    using mem_inv_bounds [OF mem] mem_inv_cover [OF mem] by auto
  let ?K = "{k. \<exists>l. vault_leaf v k = Some (Some l)}"
  have "bij_betw (\<lambda>k. the (the (vault_leaf v k))) ?K {0..<next_index v}"
    unfolding bij_betw_def inj_on_def leaves [symmetric]
  proof (intro conjI ballI impI)
    show "(\<lambda>k. the (the (vault_leaf v k))) ` ?K = {l. \<exists>k. vault_leaf v k = Some (Some l)}"
      by force
  qed (use inj in \<open>auto simp: inj_leaves_def\<close>)
  then have "card ?K = nat (next_index v)" using bij_betw_same_card by fastforce
  moreover have "0 \<le> next_index v" using mem by (simp add: mem_inv_def)
  ultimately show ?thesis using inv inj leaves size by (simp add: vault_inv_def)
qed

text \<open>C6: From any state reached, no later step of any request or of the committer changes a leaf
  index, removes a record, an audit entry or a published size, or reorders them.\<close>

theorem vault_append_only:
  assumes "sys_step\<^sup>*\<^sup>* initial_system t" "sys_step\<^sup>*\<^sup>* t t'"
  shows "grows (vault_leaf (vlt t)) (vault_leaf (vlt t'))
     \<and> prefix (audits (vlt t)) (audits (vlt t'))
     \<and> prefix (checkpointOrder (vlt t)) (checkpointOrder (vlt t'))
     \<and> current_tree_size (vlt t) \<le> current_tree_size (vlt t')"
proof -
  have inv: "sys_inv t" using sys_steps_keep [OF assms(1)] by simp
  from sys_steps_keep [OF assms(2) inv]
  have inv': "sys_inv t'" and g: "vault_grows (vlt t) (vlt t')" by simp_all
  have "current_tree_size (vlt t) = next_index (vlt t)" "current_tree_size (vlt t') = next_index (vlt t')"
    using inv inv' current_tree_size_next by (simp_all add: sys_inv_def vault_inv_def)
  with g show ?thesis by (simp add: vault_grows_def)
qed

text \<open>Two runs from the empty vault: one record committed, and two.\<close>

definition one_leaf :: vault where
  "one_leaf = commit_memory [''a''] (ingest_record ''a'' [] 0 initial_vault)"

definition two_leaves :: vault where
  "two_leaves = commit_memory [''b''] (ingest_record ''b'' [] 0 one_leaf)"

lemma one_leaf_eval:
  "one_leaf = \<lparr>storeMap = [(''a'', \<lparr>rec_id = ''a'', rec_leaf = Some 0\<rparr>)], next_index = 1,
     audits = [\<lparr>ae_id = ''a'', ae_actor = [], ae_time = 0\<rparr>], checkpointHistory = [],
     checkpointOrder = [], current_store = None\<rparr>"
  by (simp add: one_leaf_def commit_memory_def ingest_record_def initial_vault_def record_pending_def wrap64_def)

lemma two_leaves_eval:
  "two_leaves = \<lparr>storeMap = [(''a'', \<lparr>rec_id = ''a'', rec_leaf = Some 0\<rparr>), (''b'', \<lparr>rec_id = ''b'', rec_leaf = Some 1\<rparr>)],
     next_index = 2,
     audits = [\<lparr>ae_id = ''a'', ae_actor = [], ae_time = 0\<rparr>, \<lparr>ae_id = ''b'', ae_actor = [], ae_time = 0\<rparr>],
     checkpointHistory = [], checkpointOrder = [], current_store = None\<rparr>"
  by (simp add: two_leaves_def one_leaf_eval commit_memory_def ingest_record_def record_pending_def wrap64_def)

lemma leaf_sizes [simp]: "current_tree_size one_leaf = 1" "current_tree_size two_leaves = 2"
  by (simp_all add: current_tree_size_def max_leaf_index_def one_leaf_eval two_leaves_eval wrap64_def)

lemma one_leaf_steps: "sys_step\<^sup>*\<^sup>* (t\<lparr>vlt := initial_vault\<rparr>) (t\<lparr>vlt := one_leaf\<rparr>)"
proof -
  have "sys_step (t\<lparr>vlt := initial_vault\<rparr>) (t\<lparr>vlt := ingest_record ''a'' [] 0 initial_vault\<rparr>)"
    using sys_step.ingest [of "t\<lparr>vlt := initial_vault\<rparr>" "''a''" "[]" 0] by (simp add: initial_vault_def)
  moreover have "sys_step (t\<lparr>vlt := ingest_record ''a'' [] 0 initial_vault\<rparr>) (t\<lparr>vlt := one_leaf\<rparr>)"
    using sys_step.commit [of "t\<lparr>vlt := ingest_record ''a'' [] 0 initial_vault\<rparr>" "[''a'']"]
    by (simp add: one_leaf_def) (simp add: initial_vault_def max_int64_def)
  ultimately show ?thesis by (meson converse_rtranclp_into_rtranclp r_into_rtranclp)
qed

lemma two_leaves_steps: "sys_step\<^sup>*\<^sup>* (t\<lparr>vlt := one_leaf\<rparr>) (t\<lparr>vlt := two_leaves\<rparr>)"
proof -
  have "sys_step (t\<lparr>vlt := one_leaf\<rparr>) (t\<lparr>vlt := ingest_record ''b'' [] 0 one_leaf\<rparr>)"
    using sys_step.ingest [of "t\<lparr>vlt := one_leaf\<rparr>" "''b''" "[]" 0] by (simp add: one_leaf_eval)
  moreover have "sys_step (t\<lparr>vlt := ingest_record ''b'' [] 0 one_leaf\<rparr>) (t\<lparr>vlt := two_leaves\<rparr>)"
    using sys_step.commit [of "t\<lparr>vlt := ingest_record ''b'' [] 0 one_leaf\<rparr>" "[''b'']"]
    by (simp add: two_leaves_def) (simp add: one_leaf_eval max_int64_def)
  ultimately show ?thesis by (meson converse_rtranclp_into_rtranclp r_into_rtranclp)
qed

text \<open>A request that starts on \<open>v\<close> and has found no published checkpoint of size \<open>ts\<close>.\<close>

lemma request_steps:
  assumes "current_tree_size v = ts" "ts \<noteq> 0" "published ts v = None"
  shows "sys_step\<^sup>*\<^sup>* \<lparr>vlt = v, looking = [], signing = g\<rparr> \<lparr>vlt = v, looking = [], signing = ts # g\<rparr>"
proof -
  have "sys_step \<lparr>vlt = v, looking = [], signing = g\<rparr> \<lparr>vlt = v, looking = [ts], signing = g\<rparr>"
    using sys_step.compute [of "\<lparr>vlt = v, looking = [], signing = g\<rparr>"] assms by simp
  moreover have "sys_step \<lparr>vlt = v, looking = [ts], signing = g\<rparr> \<lparr>vlt = v, looking = [], signing = ts # g\<rparr>"
    using sys_step.miss [of ts "\<lparr>vlt = v, looking = [ts], signing = g\<rparr>"] assms by simp
  ultimately show ?thesis by (meson converse_rtranclp_into_rtranclp r_into_rtranclp)
qed

lemma answer_step:
  assumes "ts \<in> set g"
  shows "sys_step \<lparr>vlt = v, looking = l, signing = g\<rparr>
           \<lparr>vlt = publish (sign_checkpoint getenv post ts) v, looking = l, signing = remove1 ts g\<rparr>"
  using sys_step.answer [of ts "\<lparr>vlt = v, looking = l, signing = g\<rparr>" getenv post] assms by simp

lemma vault_interleaving_safe_witness:
  "current_tree_size one_leaf = int (card {k. \<exists>l. vault_leaf one_leaf k = Some (Some l)})"
  using vault_interleaving_safe [of "initial_system\<lparr>vlt := one_leaf\<rparr>"] one_leaf_steps [of initial_system]
  by (simp add: initial_system_def)

lemma vault_append_only_witness: "grows (vault_leaf one_leaf) (vault_leaf two_leaves)"
proof -
  have "sys_step\<^sup>*\<^sup>* initial_system (initial_system\<lparr>vlt := one_leaf\<rparr>)"
    using one_leaf_steps [of initial_system] by (simp add: initial_system_def)
  from vault_append_only [OF this two_leaves_steps] show ?thesis by simp
qed

text \<open>C39: Two requests that sign at the same time break what a single request keeps: the order of
  publication, which the history endpoint reports as latest first, can be 2 before 1; and a
  checkpoint that was published and served can be replaced by another one of the same size.\<close>

theorem checkpoint_races:
  "(\<exists>t. sys_step\<^sup>*\<^sup>* initial_system t \<and> map cp_tree_size (history_entries (vlt t)) = [1, 2])
   \<and> (\<exists>t t' cp cp'. sys_step\<^sup>*\<^sup>* initial_system t \<and> sys_step\<^sup>*\<^sup>* t t'
        \<and> published 1 (vlt t) = Some cp \<and> published 1 (vlt t') = Some cp' \<and> cp_signature cp \<noteq> cp_signature cp')"
proof
  let ?c = "sign_checkpoint (\<lambda>_. []) (\<lambda>_ _. None)"
  let ?s = "\<lambda>v g. \<lparr>vlt = v, looking = [], signing = g\<rparr>"
  let ?u = "publish (?c 2) two_leaves"
  have start: "sys_step\<^sup>*\<^sup>* initial_system (?s one_leaf [])"
    using one_leaf_steps [of initial_system] by (simp add: initial_system_def)
  have pub: "published ts one_leaf = None" "published ts two_leaves = None" for ts
    by (simp_all add: published_def one_leaf_eval two_leaves_eval)
  have sign1: "sys_step\<^sup>*\<^sup>* initial_system (?s one_leaf [1])"
    using rtranclp_trans [OF start request_steps [of one_leaf 1 "[]"]] pub by simp
  also have "sys_step\<^sup>*\<^sup>* (?s one_leaf [1]) (?s two_leaves [1])"
    using two_leaves_steps [of "?s one_leaf [1]"] by simp
  also have "sys_step\<^sup>*\<^sup>* (?s two_leaves [1]) (?s two_leaves [2, 1])"
    by (rule request_steps) (simp_all add: pub)
  also have "sys_step (?s two_leaves [2, 1]) (?s ?u [1])"
    using answer_step [of 2 "[2, 1]" two_leaves "[]"] by simp
  also have "sys_step (?s ?u [1]) (?s (publish (?c 1) ?u) [])"
    using answer_step [of 1 "[1]" ?u "[]"] by simp
  finally have "sys_step\<^sup>*\<^sup>* initial_system (?s (publish (?c 1) ?u) [])" .
  moreover have "map cp_tree_size (history_entries (publish (?c 1) ?u)) = [1, 2]"
    by (simp add: history_entries_def publish_def Let_def two_leaves_eval)
  ultimately show "\<exists>t. sys_step\<^sup>*\<^sup>* initial_system t \<and> map cp_tree_size (history_entries (vlt t)) = [1, 2]"
    by fastforce
  let ?env = "\<lambda>_. ''s''" and ?post = "\<lambda>_ _. Some (200, json_print (JObj [(''signature'', JStr ''b'')]))"
  let ?p = "publish (?c 1) one_leaf" and ?d = "sign_checkpoint ?env ?post 1"
  have "sys_step\<^sup>*\<^sup>* (?s one_leaf [1]) (?s one_leaf [1, 1])"
    by (rule request_steps) (simp_all add: pub)
  with sign1 have "sys_step\<^sup>*\<^sup>* initial_system (?s one_leaf [1, 1])" by (rule rtranclp_trans)
  also have "sys_step (?s one_leaf [1, 1]) (?s ?p [1])"
    using answer_step [of 1 "[1, 1]" one_leaf "[]"] by simp
  finally have first: "sys_step\<^sup>*\<^sup>* initial_system (?s ?p [1])" .
  have second: "sys_step\<^sup>*\<^sup>* (?s ?p [1]) (?s (publish ?d ?p) [])"
    using answer_step [of 1 "[1]" ?p "[]"] by auto
  have "json_decode_first (json_print (JObj [(''signature'', JStr ''b'')])) = Some (JObj [(''signature'', JStr ''b'')])"
    using json_roundtrip_first [of "JObj [(''signature'', JStr ''b'')]" "[]"]
    by (simp add: valid_utf8_ascii max_depth_def)
  then have "cp_signature ?d = ''b''"
    by (simp add: sign_checkpoint_def into_string_map_def into_struct_def nonempty_or_def)
  moreover have "cp_signature (?c 1) = Repeat ''a'' 64"
    by (simp add: sign_checkpoint_def nonempty_or_def)
  moreover have "Repeat ''a'' 64 \<noteq> ''b''"
    by (simp add: Repeat_def eval_nat_numeral)
  ultimately have "cp_signature (?c 1) \<noteq> cp_signature ?d" by simp
  moreover have "published 1 ?p = Some (?c 1)" "published 1 (publish ?d ?p) = Some ?d"
    by (simp_all add: published_def publish_def Let_def)
  ultimately show "\<exists>t t' cp cp'. sys_step\<^sup>*\<^sup>* initial_system t \<and> sys_step\<^sup>*\<^sup>* t t'
        \<and> published 1 (vlt t) = Some cp \<and> published 1 (vlt t') = Some cp' \<and> cp_signature cp \<noteq> cp_signature cp'"
    by - (intro exI conjI, rule first, rule second, simp_all)
qed

subsection \<open>One request after another\<close>

datatype vault_event =
    EIngest request_context http_request string int
  | ECommit "string list"
  | ECheckpoint env "string \<Rightarrow> string \<Rightarrow> (int \<times> string) option" request_context

fun apply_event :: "any_store store_ops \<Rightarrow> vault_event \<Rightarrow> vault \<Rightarrow> vault" where
  "apply_event ops (EIngest ctx req fresh now) s = fst (Ingest ops fresh now now ctx req s)"
| "apply_event ops (ECommit order) s = committer_tick ops [] order s"
| "apply_event ops (ECheckpoint getenv post ctx) s = fst (buildLatestCheckpoint getenv post ctx s)"

fun vault_events :: "any_store store_ops \<Rightarrow> vault_event list \<Rightarrow> vault \<Rightarrow> vault" where
  "vault_events ops [] s = s"
| "vault_events ops (e # es) s = vault_events ops es (apply_event ops e s)"

text \<open>Fresh ids, and room for another index.\<close>

fun event_ok :: "vault_event \<Rightarrow> vault \<Rightarrow> bool" where
  "event_ok (EIngest ctx req fresh now) s = (map_of (storeMap s) fresh = None)"
| "event_ok (ECommit order) s = (next_index s < max_int64 - 1)"
| "event_ok _ s = True"

fun events_ok :: "any_store store_ops \<Rightarrow> vault_event list \<Rightarrow> vault \<Rightarrow> bool" where
  "events_ok ops [] s = True"
| "events_ok ops (e # es) s = (event_ok e s \<and> events_ok ops es (apply_event ops e s))"

lemma vault_events_append: "vault_events ops (es @ fs) s = vault_events ops fs (vault_events ops es s)"
  by (induction es arbitrary: s) auto

lemma events_ok_append:
  "events_ok ops (es @ fs) s \<longleftrightarrow> events_ok ops es s \<and> events_ok ops fs (vault_events ops es s)"
  by (induction es arbitrary: s) auto

definition seq_inv :: "vault \<Rightarrow> bool" where
  "seq_inv v \<longleftrightarrow> vault_inv v \<and> current_store v = None \<and> sorted_wrt (<) (checkpointOrder v)"

lemma build_cases:
  assumes "vault_inv v"
  obtains (keep) "fst (buildLatestCheckpoint getenv post ctx v) = v"
  | (fresh) "fst (buildLatestCheckpoint getenv post ctx v) = publish (sign_checkpoint getenv post (next_index v)) v"
      "0 < next_index v" "published (next_index v) v = None"
proof -
  have "current_tree_size v = next_index v" "0 \<le> next_index v"
    using assms current_tree_size_next by (simp_all add: vault_inv_def mem_inv_def)
  note size = this
  show thesis
  proof (cases "hasCheckpointAccess ctx \<and> next_index v \<noteq> 0 \<and> published (next_index v) v = None")
    case True
    with size show thesis by (intro fresh) (simp_all add: buildLatestCheckpoint_def Let_def)
  next
    case False
    with size show thesis
      by (intro keep) (auto simp: buildLatestCheckpoint_def Let_def split: option.split)
  qed
qed

lemma seq_step:
  assumes "seq_inv v" "event_ok e v"
  shows "seq_inv (apply_event ops e v)
    \<and> map_of (checkpointHistory v) \<subseteq>\<^sub>m map_of (checkpointHistory (apply_event ops e v))"
proof (cases e)
  case (EIngest ctx req fresh now)
  have "fst (Ingest ops fresh now now ctx req v) \<in> {v, ingest_record fresh (SubjectFromContext ctx) now v}"
    using assms(1) by (simp add: Ingest_def ingest_store_def seq_inv_def Let_def split: option.split)
  then show ?thesis
    using EIngest assms ingest_inv(1) by (auto simp: seq_inv_def)
next
  case (ECommit order)
  then show ?thesis using assms commit_inv(1) by (simp add: seq_inv_def committer_tick_def)
next
  case (ECheckpoint getenv post ctx)
  have inv: "vault_inv v" using assms(1) by (simp add: seq_inv_def)
  then show ?thesis
  proof (cases rule: build_cases [where getenv = getenv and post = post and ctx = ctx])
    case keep
    with assms(1) ECheckpoint show ?thesis by simp
  next
    case fresh
    let ?n = "next_index v" and ?cp = "sign_checkpoint getenv post (next_index v)"
    have none: "map_of (checkpointHistory v) ?n = None" using fresh(3) by (simp add: published_def)
    have "ts < ?n" if "ts \<in> set (checkpointOrder v)" for ts
    proof -
      from that inv obtain cp where "map_of (checkpointHistory v) ts = Some cp"
        by (auto simp: vault_inv_def)
      with inv none have "ts \<le> ?n" "ts \<noteq> ?n" by (auto simp: vault_inv_def)
      then show ?thesis by simp
    qed
    then have "sorted_wrt (<) (checkpointOrder (publish ?cp v))"
      using assms(1) none by (auto simp: publish_def Let_def seq_inv_def sorted_wrt_append)
    moreover have "vault_inv (publish ?cp v)" using inv fresh(2) by (intro publish_inv) simp_all
    moreover have "map_of (checkpointHistory v) \<subseteq>\<^sub>m map_of (checkpointHistory (publish ?cp v))"
      using none by (auto simp: publish_def Let_def map_le_def)
    ultimately show ?thesis
      using ECheckpoint fresh(1) assms(1) by (simp add: seq_inv_def)
  qed
qed

lemma seq_run:
  assumes "seq_inv v" "events_ok ops es v"
  shows "seq_inv (vault_events ops es v)
    \<and> map_of (checkpointHistory v) \<subseteq>\<^sub>m map_of (checkpointHistory (vault_events ops es v))"
  using assms
proof (induction es arbitrary: v)
  case (Cons e es)
  then show ?case using seq_step [of v e ops] by (auto intro: map_le_trans)
qed simp

text \<open>C7: When requests and committer rounds run one after another, a published checkpoint is never
  changed or dropped, and the history endpoint lists exactly the published checkpoints, in
  strictly decreasing order of tree size.\<close>

theorem checkpoints_sequential:
  assumes "events_ok ops (es @ fs) initial_vault"
  defines "v \<equiv> vault_events ops es initial_vault" and "w \<equiv> vault_events ops (es @ fs) initial_vault"
  shows "map_of (checkpointHistory v) \<subseteq>\<^sub>m map_of (checkpointHistory w)
    \<and> sorted_wrt (>) (map cp_tree_size (history_entries w))
    \<and> set (history_entries w) = ran (map_of (checkpointHistory w))"
proof -
  have init: "seq_inv initial_vault" by (simp add: seq_inv_def) (simp add: initial_vault_def)
  have v: "seq_inv v" using seq_run [OF init] assms(1) by (simp add: v_def events_ok_append)
  from seq_run [OF v, of ops fs] have w: "seq_inv w"
    and le: "map_of (checkpointHistory v) \<subseteq>\<^sub>m map_of (checkpointHistory w)"
    using assms(1) by (simp_all add: v_def w_def events_ok_append vault_events_append)
  let ?H = "map_of (checkpointHistory w)"
  have dom: "set (checkpointOrder w) = dom ?H" and key: "\<And>ts cp. ?H ts = Some cp \<Longrightarrow> cp_tree_size cp = ts"
    using w by (auto simp: seq_inv_def vault_inv_def)
  have entries: "history_entries w = map (\<lambda>ts. the (?H ts)) (rev (checkpointOrder w))"
    unfolding history_entries_def by (rule map_cong) (use dom in \<open>auto split: option.split\<close>)
  have "map cp_tree_size (history_entries w) = rev (checkpointOrder w)"
    unfolding entries map_map by (rule map_idI) (use dom key in auto)
  then have "sorted_wrt (>) (map cp_tree_size (history_entries w))"
    using w by (simp add: seq_inv_def sorted_wrt_rev)
  moreover have "set (history_entries w) = ran ?H"
    unfolding entries by (force simp: dom ran_def)
  ultimately show ?thesis using le by simp
qed

lemma checkpoints_sequential_witness:
  "sorted_wrt (>) (map cp_tree_size (history_entries (vault_events (any_ops Some [] 0)
     ([EIngest background (demo_request []) ''a'' 0]
      @ [ECommit [''a''], ECheckpoint (\<lambda>_. []) (\<lambda>_ _. None) auditor_ctx]) initial_vault)))"
  by (rule checkpoints_sequential [THEN conjunct2, THEN conjunct1])
    (simp add: Ingest_def demo_request_def decode_demo_body committer_tick_def ingest_store_def initial_vault_def
      ingest_record_def max_int64_def Let_def)

end
