(* ===== verification/VaultApi.thy ===== *)
theory VaultApi
  imports VaultRuns
begin

text \<open>
  What a client of the endpoints in \<open>handler/ingest.go\<close> can rely on: who is let in, the life of a
  record from ingest to proof, what checkpoints bind and do not bind, and what the verification
  endpoint answers.
\<close>

subsection \<open>Access\<close>

lemma access_iff: "hasCheckpointAccess ctx \<longleftrightarrow>
    ''auditor'' \<in> set (RolesFromContext ctx) \<or> ''ingester'' \<in> set (RolesFromContext ctx)"
  by (auto simp: hasCheckpointAccess_def list_ex_iff)

text \<open>Given a role, no endpoint answers 403.\<close>

lemma verify_not_forbidden: "status (verifyCheckpointResponse getenv verify cp) \<in> {200, 503}"
  by (simp add: verifyCheckpointResponse_def verdict_error_def Let_def split: option.split)

lemma build_granted:
  "hasCheckpointAccess ctx \<Longrightarrow> snd (buildLatestCheckpoint getenv post ctx s) \<noteq> Inl 403"
  by (simp add: buildLatestCheckpoint_def Let_def split: option.split)

text \<open>C20: The audit log answers 403 exactly to requests without the auditor role, each checkpoint
  endpoint exactly to requests with neither the auditor nor the ingester role; a refused request
  changes nothing.\<close>

theorem endpoint_access:
  assumes "h = GetAudit \<and> needed = {''auditor''}
    \<or> h \<in> {GetCheckpointsLatest getenv post, GetCheckpointsHistory getenv post,
            VerifyLatestCheckpoint getenv post verify, VerifyCheckpointByTreeSize getenv verify}
      \<and> needed = {''auditor'', ''ingester''}"
  shows "(set (RolesFromContext ctx) \<inter> needed = {} \<longrightarrow> h ctx req s = (s, Some (bare 403)))
    \<and> (set (RolesFromContext ctx) \<inter> needed \<noteq> {} \<longrightarrow> (\<exists>s' r. h ctx req s = (s', Some r) \<and> status r \<noteq> 403))"
proof (cases "h = GetAudit \<and> needed = {''auditor''}")
  case True
  then show ?thesis by (auto simp: GetAudit_def list_ex_iff)
next
  case False
  with assms have h: "h = GetCheckpointsLatest getenv post \<or> h = GetCheckpointsHistory getenv post
      \<or> h = VerifyLatestCheckpoint getenv post verify \<or> h = VerifyCheckpointByTreeSize getenv verify"
    and needed: "needed = {''auditor'', ''ingester''}" by auto
  show ?thesis
  proof (cases "hasCheckpointAccess ctx")
    case no: False
    then have "set (RolesFromContext ctx) \<inter> needed = {}" by (simp add: access_iff needed)
    moreover have "buildLatestCheckpoint getenv post ctx s = (s, Inl 403)"
      using no by (simp add: buildLatestCheckpoint_def)
    ultimately show ?thesis
      using h no by (auto simp: GetCheckpointsLatest_def GetCheckpointsHistory_def
          VerifyLatestCheckpoint_def VerifyCheckpointByTreeSize_def)
  next
    case yes: True
    obtain s' x where b: "buildLatestCheckpoint getenv post ctx s = (s', x)" by fastforce
    have x: "x \<noteq> Inl 403" using build_granted [OF yes, of getenv post s] b by simp
    have v: "status (verifyCheckpointResponse getenv verify cp) \<noteq> 403" for cp
      using verify_not_forbidden [of getenv verify cp] by auto
    have "\<exists>s' r. h ctx req s = (s', Some r) \<and> status r \<noteq> 403"
      using h yes b x v
      by (auto simp: GetCheckpointsLatest_def GetCheckpointsHistory_def
          VerifyLatestCheckpoint_def VerifyCheckpointByTreeSize_def split: sum.split option.split)
    then show ?thesis using yes by (auto simp: access_iff needed)
  qed
qed

lemma endpoint_access_witness:
  "GetCheckpointsLatest (\<lambda>_. []) (\<lambda>_ _. None) background (demo_request []) initial_vault
     = (initial_vault, Some (bare 403))"
  using endpoint_access [of "GetCheckpointsLatest (\<lambda>_. []) (\<lambda>_ _. None)" "{''auditor'', ''ingester''}"
      "\<lambda>_. []" "\<lambda>_ _. None" "\<lambda>_ _ _. True" background "demo_request []" initial_vault]
  by simp

subsection \<open>The life of a record\<close>

lemma evidence_path:
  "length (evidence_prefix @ i) < length evidence_prefix \<longleftrightarrow> False"
  "drop (length evidence_prefix) (evidence_prefix @ i) = i"
  by simp_all

lemma strip_proof_suffix: "i \<noteq> [] \<Longrightarrow> strip_proof (i @ ''/proof'') = i"
  by (simp add: strip_proof_def)

definition evidence_request :: "string \<Rightarrow> http_request" where
  "evidence_request i = \<lparr>http_method = ''GET'', path = evidence_prefix @ i, raw_path = [], authorization = [], body = []\<rparr>"

definition proof_request :: "string \<Rightarrow> http_request" where
  "proof_request i = \<lparr>http_method = ''GET'', path = evidence_prefix @ i @ ''/proof'', raw_path = [], authorization = [], body = []\<rparr>"

lemma get_evidence_lookup:
  "current_store s = None \<Longrightarrow>
     GetEvidence ops ctx (evidence_request i) s =
       (s, Some (case map_of (storeMap s) i of
                   None \<Rightarrow> bare 404
                 | Some r \<Rightarrow> reply_json 200 (jmap [(''leaf_index'', leaf_json (rec_leaf r))])))"
  by (simp add: GetEvidence_def evidence_request_def Let_def split: option.split)

lemma get_proof_lookup:
  "i \<noteq> [] \<Longrightarrow>
     GetProof ctx (proof_request i) s =
       (s, Some (case Option.bind (map_of (storeMap s) i) rec_leaf of
                   None \<Rightarrow> bare 404
                 | Some l \<Rightarrow> reply_json 200 (jmap [(''leaf_index'', jint l), (''tree_size'', jint (wrap64 (l + 1))),
                     (''root'', JStr zero_root), (''path'', JArr [])])))"
  using strip_proof_suffix [of i]
  by (simp add: GetProof_def proof_request_def split: option.split)

text \<open>C21: A body that is not JSON, is not of the right shape, or has no payload, is answered 400 and
  changes nothing, in every state. Without a store any other is answered 202 with the new id, whose
  evidence then has a null leaf index and no proof, and whose audit entry names the subject of the
  request. Once the committer picks that record, its evidence and its proof give the next free index
  \<open>n\<close>, the proof with tree size \<open>n + 1\<close>.\<close>

theorem evidence_lifecycle:
  assumes "current_store s = None" "i \<noteq> []" "vault_inv s" "next_index s < max_int64 - 1"
    and accepted: "decode_ingest (body req) = Some (ct, payload)" "payload \<noteq> []"
    and fresh: "map_of (storeMap s) i = None"
    and picked: "List.find (record_pending (fst (Ingest ops i now now' ctx req s))) order = Some i"
  defines "s1 \<equiv> fst (Ingest ops i now now' ctx req s)"
    and "s2 \<equiv> committer_tick ops [] order (fst (Ingest ops i now now' ctx req s))"
  shows "snd (Ingest ops i now now' ctx req s) = Some (ingest_reply i)
    \<and> audits s1 = audits s @ [\<lparr>ae_id = i, ae_actor = SubjectFromContext ctx, ae_time = now\<rparr>]
    \<and> snd (GetEvidence ops ctx' (evidence_request i) s1) = Some (reply_json 200 (jmap [(''leaf_index'', JNull)]))
    \<and> snd (GetProof ctx' (proof_request i) s1) = Some (bare 404)
    \<and> snd (GetEvidence ops ctx' (evidence_request i) s2)
        = Some (reply_json 200 (jmap [(''leaf_index'', jint (next_index s))]))
    \<and> snd (GetProof ctx' (proof_request i) s2)
        = Some (reply_json 200 (jmap [(''leaf_index'', jint (next_index s)), (''tree_size'', jint (next_index s + 1)),
            (''root'', JStr zero_root), (''path'', JArr [])]))
    \<and> (\<forall>bad t. json_decode_first (body bad) = None \<or> decode_ingest (body bad) = None
            \<or> (\<exists>ct'. decode_ingest (body bad) = Some (ct', [])) \<longrightarrow>
          Ingest ops i now now' ctx bad t = (t, Some (bare 400)))"
proof -
  have refused: "Ingest ops i now now' ctx bad t = (t, Some (bare 400))"
    if "json_decode_first (body bad) = None \<or> decode_ingest (body bad) = None \<or> (\<exists>ct'. decode_ingest (body bad) = Some (ct', []))"
    for bad t
    using that by (auto simp: Ingest_def decode_ingest_def)
  have s1: "s1 = ingest_record i (SubjectFromContext ctx) now s"
    using assms(1) accepted by (simp add: s1_def Ingest_def ingest_store_def Let_def)
  have look1: "map_of (storeMap s1) i = Some \<lparr>rec_id = i, rec_leaf = None\<rparr>"
    and store1: "current_store s1 = None" and next1: "next_index s1 = next_index s"
    and audit1: "audits s1 = audits s @ [\<lparr>ae_id = i, ae_actor = SubjectFromContext ctx, ae_time = now\<rparr>]"
    using assms(1) by (simp_all add: s1 ingest_record_def)
  have s2: "s2 = commit_memory order s1" using store1 by (simp add: s2_def s1_def committer_tick_def)
  have look2: "map_of (storeMap s2) i = Some \<lparr>rec_id = i, rec_leaf = Some (next_index s)\<rparr>"
    using picked look1 next1 by (simp add: s2 commit_memory_def flip: s1_def)
  have store2: "current_store s2 = None" using store1 by (simp add: s2)
  have "wrap64 (next_index s + 1) = next_index s + 1"
    using assms(3,4) by (intro wrap64_succ in_int64_small) (simp_all add: vault_inv_def mem_inv_def)
  then show ?thesis
    using assms(2) accepted audit1 refused
    by (simp add: get_evidence_lookup get_proof_lookup store1 store2 look1 look2 leaf_json_def)
      (simp add: Ingest_def Let_def)
qed

lemma evidence_lifecycle_witness:
  "snd (GetProof background (proof_request ''a'')
     (committer_tick (any_ops Some [] 0) [] [''a'']
       (fst (Ingest (any_ops Some [] 0) ''a'' 0 0 background (demo_request []) initial_vault))))
   = Some (reply_json 200 (jmap [(''leaf_index'', jint 0), (''tree_size'', jint 1),
            (''root'', JStr zero_root), (''path'', JArr [])]))"
proof -
  have "decode_ingest (body (demo_request [])) = Some ([], ''A'')"
    by (simp add: demo_request_def decode_demo_body)
  from evidence_lifecycle [OF _ _ initial_inv(1) _ this, of "''a''" "any_ops Some [] 0" 0 0 background "[''a'']" background]
  show ?thesis using \<open>decode_ingest (body (demo_request [])) = Some ([], ''A'')\<close>
    by (simp add: initial_vault_def max_int64_def Ingest_def record_pending_def ingest_record_def ingest_store_def)
qed

subsection \<open>What a checkpoint binds\<close>

lemma zero_root_replicate: "zero_root = replicate 64 (CHR ''0'')"
proof -
  have "concat (replicate n [c]) = replicate n c" for n and c :: char by (induction n) auto
  then show ?thesis by (simp add: zero_root_def Repeat_def)
qed

text \<open>C40: Neither the payload nor the content type of an ingest request reaches the state, the store
  or the answer, and a checkpoint depends on the vault only through its number of leaves: two
  vaults of the same size, whatever their evidence, get the same root (64 zeros), the same signed
  bytes and the same checkpoint.\<close>

theorem evidence_not_bound:
  "(decode_ingest (body req) = Some (ct, p) \<and> p \<noteq> [] \<and> decode_ingest (body req') = Some (ct', p') \<and> p' \<noteq> [] \<longrightarrow>
      Ingest ops i now now' ctx req s = Ingest ops i now now' ctx req' s)
   \<and> (current_tree_size s = current_tree_size s' \<and> published (current_tree_size s) s = None
      \<and> published (current_tree_size s') s' = None \<longrightarrow>
      snd (buildLatestCheckpoint getenv post ctx s) = snd (buildLatestCheckpoint getenv post ctx s'))
   \<and> (\<forall>cp. published (current_tree_size s) s = None \<longrightarrow> snd (buildLatestCheckpoint getenv post ctx s) = Inr cp \<longrightarrow>
        cp_root_hash cp = replicate 64 (CHR ''0''))"
  using zero_root_replicate by (auto simp: Ingest_def buildLatestCheckpoint_def Let_def)

lemma evidence_not_bound_witness:
  "snd (buildLatestCheckpoint (\<lambda>_. []) (\<lambda>_ _. None) auditor_ctx one_leaf)
     = snd (buildLatestCheckpoint (\<lambda>_. []) (\<lambda>_ _. None) auditor_ctx
         (commit_memory [''z''] (ingest_record ''z'' ''eve'' 7 initial_vault)))"
proof -
  let ?s = "commit_memory [''z''] (ingest_record ''z'' ''eve'' 7 initial_vault)"
  have "?s = \<lparr>storeMap = [(''z'', \<lparr>rec_id = ''z'', rec_leaf = Some 0\<rparr>)], next_index = 1,
     audits = [\<lparr>ae_id = ''z'', ae_actor = ''eve'', ae_time = 7\<rparr>], checkpointHistory = [],
     checkpointOrder = [], current_store = None\<rparr>"
    by (simp add: commit_memory_def ingest_record_def initial_vault_def record_pending_def wrap64_def)
  then have "current_tree_size ?s = 1" "published 1 ?s = None"
    by (simp_all add: current_tree_size_def max_leaf_index_def wrap64_def published_def)
  moreover have "published 1 one_leaf = None" by (simp add: published_def one_leaf_eval)
  ultimately show ?thesis
    using evidence_not_bound [of "demo_request []" "[]" "''A''" "demo_request []" "[]" "''A''" "any_ops Some [] 0" "[]" 0 0
        auditor_ctx one_leaf ?s "\<lambda>_. []" "\<lambda>_ _. None"] by simp
qed

subsection \<open>Two sources of leaf indices\<close>

text \<open>With a store set, the committer falls back to the handler's own counter whenever the store
  has nothing to assign, and this counter does not know the indices that the store gave: a record
  whose copy into Postgres was lost gets leaf index 0 although another record holds it.\<close>

lemma committer_mixes_indices:
  "\<exists>es p. let v = vault_events (any_ops Some ''f'' 0) es
             (initial_vault\<lparr>current_store := Some (Pg \<lparr>pg_rows = [], pg_audit = [], pg_net = p\<rparr>)\<rparr>)
      in vault_leaf v ''a'' = Some (Some 0) \<and> vault_leaf v ''b'' = Some (Some 0)"
proof -
  let ?es = "[EIngest background (demo_request []) ''a'' 0, ECommit [], EIngest background (demo_request []) ''b'' 0,
              ECommit [''b'']]"
  let ?p = "[Succeeds, Succeeds, Succeeds, Succeeds, Succeeds, Succeeds, Succeeds, LostBefore]"
  show ?thesis
    by (rule exI [of _ ?es], rule exI [of _ ?p])
      (simp add: Ingest_def demo_request_def decode_demo_body ingest_record_def ingest_store_def initial_vault_def
        committer_tick_def commit_copy_def commit_memory_def record_pending_def vault_leaf_lookup any_ops_def
        pg_save_evidence_def pg_save_audit_def pg_exec_def next_outcome_def insert_row_def pg_assign_def
        set_leaf_def next_leaf_def max_leaf_def Let_def)
qed

subsection \<open>Unsigned checkpoints\<close>

lemma a64_decodes: "\<exists>sig. b64_decode (Repeat ''a'' 64) = Some sig \<and> length sig = 48"
proof -
  have "b64_decode (Repeat ''a'' 64) \<noteq> None \<and> length (the (b64_decode (Repeat ''a'' 64))) = 48"
    by code_simp
  then show ?thesis by auto
qed

text \<open>Without a signing service every checkpoint carries the placeholder signature, and the
  verification endpoint, given a usable key and a verifier that (as Ed25519 does) refuses
  signatures that are not 64 bytes long, reports it as not verified.\<close>

lemma placeholder_not_verified:
  assumes "getenv ''CHECKPOINT_SIGNING_URL'' = []"
    and "b64_decode (TrimSpace (getenv ''CHECKPOINT_VERIFY_PUBLIC_KEY_B64'')) = Some pub" "length pub = 32"
    and "\<And>k m sig. verify k m sig \<Longrightarrow> length sig = 64"
    and "vault_inv s" "0 < next_index s" "published (next_index s) s = None" "hasCheckpointAccess ctx"
  shows "snd (VerifyLatestCheckpoint getenv post verify ctx req s)
    = Some (reply_json 200 (jmap [(''verified'', JBool False), (''tree_size'', jint (next_index s)),
        (''root_hash'', JStr zero_root), (''signature'', JStr (Repeat ''a'' 64)),
        (''key_ref'', JStr ''local:dev-default'')]))"
proof -
  let ?cp = "sign_checkpoint getenv post (next_index s)"
  have size: "current_tree_size s = next_index s"
    using assms(5) current_tree_size_next by (simp add: vault_inv_def)
  have "snd (buildLatestCheckpoint getenv post ctx s) = Inr ?cp"
    using assms(6-8) size by (simp add: buildLatestCheckpoint_def Let_def)
  then obtain s' where build: "buildLatestCheckpoint getenv post ctx s = (s', Inr ?cp)"
    by (metis prod.collapse)
  have cp: "cp_signature ?cp = Repeat ''a'' 64" "cp_key_ref ?cp = ''local:dev-default''"
    using assms(1) by (simp_all add: sign_checkpoint_def nonempty_or_def)
  obtain sig where sig: "b64_decode (Repeat ''a'' 64) = Some sig" "length sig = 48"
    using a64_decodes by blast
  then have "\<not> verify k m sig" for k m using assms(4) by fastforce
  moreover have "TrimSpace (getenv ''CHECKPOINT_VERIFY_PUBLIC_KEY_B64'') \<noteq> []"
    using assms(2,3) by (auto simp: b64_decode_def)
  ultimately show ?thesis
    using assms(2,3) cp sig
    by (simp add: VerifyLatestCheckpoint_def build verifyCheckpointResponse_def Let_def)
qed

definition key_env :: env where
  "key_env = env_of [(''CHECKPOINT_VERIFY_PUBLIC_KEY_B64'', b64_encode (replicate 32 (CHR ''k'')))]"

lemma key_env_eval:
  "key_env ''CHECKPOINT_SIGNING_URL'' = []"
  "b64_decode (TrimSpace (key_env ''CHECKPOINT_VERIFY_PUBLIC_KEY_B64'')) = Some (replicate 32 (CHR ''k''))"
proof -
  have "list_all plain (b64_encode (replicate 32 (CHR ''k'')))" by code_simp
  then have "TrimSpace (b64_encode (replicate 32 (CHR ''k''))) = b64_encode (replicate 32 (CHR ''k''))"
    by (intro TrimSpace_plain) (simp add: list_all_iff)
  then show "key_env ''CHECKPOINT_SIGNING_URL'' = []"
    "b64_decode (TrimSpace (key_env ''CHECKPOINT_VERIFY_PUBLIC_KEY_B64'')) = Some (replicate 32 (CHR ''k''))"
    by (simp_all add: key_env_def env_of_def)
qed

lemma one_leaf_inv: "vault_inv one_leaf"
  unfolding one_leaf_def
  by (intro commit_inv(1) ingest_inv(1)) (simp_all, simp_all add: initial_vault_def max_int64_def)

lemma auditor_granted [simp]: "hasCheckpointAccess auditor_ctx"
  by (simp add: access_iff auditor_ctx_def)

lemma placeholder_not_verified_witness:
  "snd (VerifyLatestCheckpoint key_env (\<lambda>_ _. None) (\<lambda>k m sig. length sig = 64) auditor_ctx (demo_request []) one_leaf)
    = Some (reply_json 200 (jmap [(''verified'', JBool False), (''tree_size'', jint 1),
        (''root_hash'', JStr zero_root), (''signature'', JStr (Repeat ''a'' 64)),
        (''key_ref'', JStr ''local:dev-default'')]))"
proof -
  have "next_index one_leaf = 1" "published 1 one_leaf = None"
    by (simp_all add: one_leaf_eval published_def)
  then show ?thesis
    using placeholder_not_verified [OF key_env_eval, of "\<lambda>k m sig. length sig = 64" one_leaf auditor_ctx "\<lambda>_ _. None" "demo_request []"]
      one_leaf_inv by simp
qed

end
