(* ===== verification/Metrics.thy ===== *)
theory Metrics
  imports Complex_Main "HOL-Library.Word" "HOL-Library.Multiset" Http
begin

text \<open>
  \<open>vault-api/middleware/metrics.go\<close>. A finished request updates the counters by a fixed sequence
  of atomic operations (\<open>metric_ops\<close>); sequences of requests that run at the same time interleave.
  Counters are 64-bit words. A \<open>sync.Map\<close> from which nothing is deleted is a map; its range order
  is an argument. The test whether a duration falls into a bucket is a comparison of integers:
  with durations in microseconds and bounds that are whole microseconds, the rounding of the
  division and of the bounds to float64 cannot change it. What the endpoint reports is modelled up
  to the formatting of floats, as samples.
\<close>

subsection \<open>Classification\<close>

definition classifyOperation :: "string \<Rightarrow> string \<Rightarrow> string" where
  "classifyOperation meth p =
     (if meth = ''POST'' \<and> p = ''/api/v1/evidence'' then ''ingest''
      else if meth = ''GET'' \<and> HasPrefix p ''/api/v1/evidence/'' \<and> HasSuffix p ''/proof'' then ''proof''
      else ''other'')"

definition classifyStatusClass :: "int \<Rightarrow> string" where
  "classifyStatusClass st =
     (if st \<ge> 500 then ''5xx'' else if st \<ge> 400 then ''4xx'' else if st \<ge> 300 then ''3xx'' else ''2xx'')"

subsection \<open>Counters\<close>

record vault_metrics =
  vaultRequestsTotal :: "64 word"
  vaultRequestDurationMicros :: "64 word"
  vaultRequestsByStatus :: "string \<rightharpoonup> 64 word"
  vaultRequestsByOperationStatus :: "string \<rightharpoonup> 64 word"
  vaultDurationSumByOperation :: "string \<rightharpoonup> 64 word"
  vaultDurationCountByOperation :: "string \<rightharpoonup> 64 word"
  vaultDurationBucketsByOp :: "string \<rightharpoonup> 64 word list"

definition zero_metrics :: vault_metrics where
  "zero_metrics =
     \<lparr>vaultRequestsTotal = 0, vaultRequestDurationMicros = 0, vaultRequestsByStatus = Map.empty,
      vaultRequestsByOperationStatus = Map.empty, vaultDurationSumByOperation = Map.empty,
      vaultDurationCountByOperation = Map.empty, vaultDurationBucketsByOp = Map.empty\<rparr>"

text \<open>The bounds 0.01, 0.025, ..., 5 seconds, in microseconds.\<close>

definition durationBuckets :: "nat list" where
  "durationBuckets = [10000, 25000, 50000, 100000, 250000, 500000, 1000000, 2500000, 5000000]"

text \<open>The same bounds as \<open>%g\<close> prints them.\<close>

definition bucketLabels :: "string list" where
  "bucketLabels = [''0.01'', ''0.025'', ''0.05'', ''0.1'', ''0.25'', ''0.5'', ''1'', ''2.5'', ''5'']"

text \<open>\<open>LoadOrStore (key, new (uint64))\<close> followed by an atomic addition through the pointer.\<close>

definition bump :: "string \<Rightarrow> 64 word \<Rightarrow> (string \<rightharpoonup> 64 word) \<Rightarrow> (string \<rightharpoonup> 64 word)" where
  "bump k d m = m(k \<mapsto> (case m k of None \<Rightarrow> d | Some c \<Rightarrow> c + d))"

text \<open>
  The creation of a counter and the addition to it are one operation here: nothing depends on the
  moment a zero counter appears. \<open>OBuckets\<close> creates the histogram of an operation, \<open>OBucket\<close> adds
  to one of its counters; a request performs the first before the second, so that the second
  always meets an existing histogram.
\<close>

datatype metric_op =
    OTotal | ODuration nat | OStatus string | OOpStatus string
  | OSum string nat | OCount string | OBuckets string | OBucket string nat

definition buckets_of :: "(string \<rightharpoonup> 64 word list) \<Rightarrow> string \<Rightarrow> 64 word list" where
  "buckets_of m k = (case m k of None \<Rightarrow> replicate (length durationBuckets) 0 | Some bs \<Rightarrow> bs)"

definition ensure_buckets :: "string \<Rightarrow> (string \<rightharpoonup> 64 word list) \<Rightarrow> (string \<rightharpoonup> 64 word list)" where
  "ensure_buckets k m = m(k \<mapsto> buckets_of m k)"

definition incr_at :: "nat \<Rightarrow> 64 word list \<Rightarrow> 64 word list" where
  "incr_at i bs = bs[i := bs ! i + 1]"

definition hit_bucket :: "string \<Rightarrow> nat \<Rightarrow> (string \<rightharpoonup> 64 word list) \<Rightarrow> (string \<rightharpoonup> 64 word list)" where
  "hit_bucket k i m = m(k \<mapsto> incr_at i (buckets_of m k))"

fun run_op :: "metric_op \<Rightarrow> vault_metrics \<Rightarrow> vault_metrics" where
  "run_op OTotal m = m\<lparr>vaultRequestsTotal := vaultRequestsTotal m + 1\<rparr>"
| "run_op (ODuration d) m = m\<lparr>vaultRequestDurationMicros := vaultRequestDurationMicros m + of_nat d\<rparr>"
| "run_op (OStatus k) m = m\<lparr>vaultRequestsByStatus := bump k 1 (vaultRequestsByStatus m)\<rparr>"
| "run_op (OOpStatus k) m = m\<lparr>vaultRequestsByOperationStatus := bump k 1 (vaultRequestsByOperationStatus m)\<rparr>"
| "run_op (OSum k d) m = m\<lparr>vaultDurationSumByOperation := bump k (of_nat d) (vaultDurationSumByOperation m)\<rparr>"
| "run_op (OCount k) m = m\<lparr>vaultDurationCountByOperation := bump k 1 (vaultDurationCountByOperation m)\<rparr>"
| "run_op (OBuckets k) m = m\<lparr>vaultDurationBucketsByOp := ensure_buckets k (vaultDurationBucketsByOp m)\<rparr>"
| "run_op (OBucket k i) m = m\<lparr>vaultDurationBucketsByOp := hit_bucket k i (vaultDurationBucketsByOp m)\<rparr>"

definition run_ops :: "metric_op list \<Rightarrow> vault_metrics \<Rightarrow> vault_metrics" where
  "run_ops ops m = fold run_op ops m"

text \<open>A finished request: its method, path, status and duration in microseconds.\<close>

type_synonym observed = "string \<times> string \<times> int \<times> nat"

definition bucket_hits :: "nat \<Rightarrow> nat list" where
  "bucket_hits d = filter (\<lambda>i. d \<le> durationBuckets ! i) [0..<length durationBuckets]"

fun metric_ops :: "observed \<Rightarrow> metric_op list" where
  "metric_ops (meth, p, st, d) =
     (let k = classifyOperation meth p
      in [OTotal, ODuration d, OStatus (FormatInt st), OOpStatus (k @ ''|'' @ classifyStatusClass st),
          OSum k d, OCount k, OBuckets k] @ map (OBucket k) (bucket_hits d))"

text \<open>The middleware: the recorded status is the one the handler wrote; a panic records nothing.\<close>

definition Metrics :: "nat \<Rightarrow> ('s \<times> vault_metrics) handler \<Rightarrow> ('s \<times> vault_metrics) handler" where
  "Metrics durMicros nxt ctx req s =
     (case nxt ctx req s of
        (s', None) \<Rightarrow> (s', None)
      | (s', Some r) \<Rightarrow>
          ((fst s', run_ops (metric_ops (http_method req, path req, status r, durMicros)) (snd s')), Some r))"

subsection \<open>The endpoint\<close>

datatype sample = Sample (metric: string) (labels: "(string \<times> string) list") (amount: rat)

definition seconds :: "64 word \<Rightarrow> rat" where
  "seconds w = of_nat (unat w) / 1000000"

definition split_key :: "string \<Rightarrow> string \<times> string" where
  "split_key k = (case SplitN2 k (CHR ''|'') of [a, b] \<Rightarrow> (a, b) | _ \<Rightarrow> (k, []))"

definition counter_samples :: "string \<Rightarrow> (string \<Rightarrow> (string \<times> string) list) \<Rightarrow> (64 word \<Rightarrow> rat) \<Rightarrow>
    (string \<rightharpoonup> 64 word) \<Rightarrow> string list \<Rightarrow> sample list" where
  "counter_samples name labs conv m ks =
     List.map_filter (\<lambda>k. map_option (\<lambda>c. Sample name (labs k) (conv c)) (m k)) ks"

text \<open>The histogram of one operation; no value when its count is missing: the code would dereference
  a nil pointer.\<close>

definition bucket_samples :: "vault_metrics \<Rightarrow> string \<Rightarrow> sample list option" where
  "bucket_samples m k =
     (case (vaultDurationBucketsByOp m k, vaultDurationCountByOperation m k) of
        (None, _) \<Rightarrow> Some []
      | (Some bs, None) \<Rightarrow> None
      | (Some bs, Some c) \<Rightarrow>
          Some (map (\<lambda>(b, n). Sample ''vault_api_http_request_duration_seconds_bucket''
                       [(''operation'', k), (''le'', b)] (of_nat (unat n))) (zip bucketLabels bs)
                @ [Sample ''vault_api_http_request_duration_seconds_bucket''
                     [(''operation'', k), (''le'', ''+Inf'')] (of_nat (unat c))]))"

definition average :: "vault_metrics \<Rightarrow> rat" where
  "average m =
     (if vaultRequestsTotal m > 0
      then seconds (vaultRequestDurationMicros m) / of_nat (unat (vaultRequestsTotal m)) else 0)"

definition MetricsHandler :: "(nat \<Rightarrow> string list) \<Rightarrow> vault_metrics \<Rightarrow> sample list option" where
  "MetricsHandler order m =
     (case all_some (map (bucket_samples m) (order 2)) of
        None \<Rightarrow> None
      | Some hist \<Rightarrow> Some (
          [Sample ''vault_api_http_requests_total'' [] (of_nat (unat (vaultRequestsTotal m))),
           Sample ''vault_api_http_request_duration_seconds_sum'' [] (seconds (vaultRequestDurationMicros m)),
           Sample ''vault_api_http_request_duration_seconds_avg'' [] (average m)]
          @ counter_samples ''vault_api_http_requests_by_status'' (\<lambda>k. [(''status'', k)]) (\<lambda>c. of_nat (unat c))
              (vaultRequestsByStatus m) (order 0)
          @ counter_samples ''vault_api_http_requests_operation_total''
              (\<lambda>k. [(''operation'', fst (split_key k)), (''status_class'', snd (split_key k))]) (\<lambda>c. of_nat (unat c))
              (vaultRequestsByOperationStatus m) (order 1)
          @ concat hist
          @ counter_samples ''vault_api_http_request_duration_seconds_sum_by_operation'' (\<lambda>k. [(''operation'', k)]) seconds
              (vaultDurationSumByOperation m) (order 3)
          @ counter_samples ''vault_api_http_request_duration_seconds_count_by_operation'' (\<lambda>k. [(''operation'', k)])
              (\<lambda>c. of_nat (unat c)) (vaultDurationCountByOperation m) (order 4)))"

subsection \<open>Interleavings\<close>

text \<open>All orders in which several sequences can run, each keeping its own order.\<close>

inductive interleave :: "'a list list \<Rightarrow> 'a list \<Rightarrow> bool" where
  idle: "\<forall>xs \<in> set xss. xs = [] \<Longrightarrow> interleave xss []"
| step: "i < length xss \<Longrightarrow> xss ! i = x # xs \<Longrightarrow> interleave (xss[i := xs]) ys \<Longrightarrow> interleave xss (x # ys)"

lemma interleave_mset: "interleave xss ys \<Longrightarrow> mset ys = mset (concat xss)"
proof (induction rule: interleave.induct)
  case (idle xss)
  then have "concat xss = []" by simp
  then show ?case by simp
next
  case (step i xss x xs ys)
  have "xss = take i xss @ (x # xs) # drop (Suc i) xss"
    using step.hyps(1,2) by (metis id_take_nth_drop)
  then have "mset (concat xss) = mset (concat (take i xss @ (x # xs) # drop (Suc i) xss))" by simp
  moreover have "xss[i := xs] = take i xss @ xs # drop (Suc i) xss"
    using step.hyps(1) by (simp add: upd_conv_take_nth_drop)
  ultimately show ?case using step.IH by simp
qed

text \<open>No \<open>b\<close> without an \<open>a\<close> before it.\<close>

fun guarded :: "'a \<Rightarrow> 'a \<Rightarrow> 'a list \<Rightarrow> bool" where
  "guarded a b [] = True"
| "guarded a b (x # xs) = (x = a \<or> x \<noteq> b \<and> guarded a b xs)"

lemma guarded_notin: "b \<notin> set xs \<Longrightarrow> guarded a b xs"
  by (induction xs) auto

lemma guarded_prefix: "guarded a b (us @ vs) \<Longrightarrow> guarded a b us"
  by (induction us) auto

lemma interleave_guarded: "interleave xss ys \<Longrightarrow> \<forall>xs \<in> set xss. guarded a b xs \<Longrightarrow> guarded a b ys"
proof (induction rule: interleave.induct)
  case (step i xss x xs ys)
  have "guarded a b (x # xs)" using step.hyps(1,2) step.prems nth_mem by metis
  moreover have "guarded a b ys" if "guarded a b xs"
    using step.IH step.prems that set_update_subset_insert by fastforce
  ultimately show ?case by auto
qed simp

subsection \<open>The order of additions does not matter\<close>

lemma bump_commute: "bump k d (bump k' d' m) = bump k' d' (bump k d m)"
  by (rule ext) (auto simp: bump_def add_ac split: option.split)

lemma incr_at_commute: "incr_at i (incr_at j bs) = incr_at j (incr_at i bs)"
  unfolding incr_at_def
  by (cases "i = j"; cases "i < length bs"; cases "j < length bs") (simp_all add: list_update_swap list_update_beyond)

lemma buckets_of_upd: "buckets_of (m(k \<mapsto> bs)) k' = (if k' = k then bs else buckets_of m k')"
  by (simp add: buckets_of_def)

lemma bucket_ops_commute:
  "ensure_buckets k (ensure_buckets k' m) = ensure_buckets k' (ensure_buckets k m)"
  "hit_bucket k i (hit_bucket k' j m) = hit_bucket k' j (hit_bucket k i m)"
  "ensure_buckets k (hit_bucket k' j m) = hit_bucket k' j (ensure_buckets k m)"
  by (cases "k = k'"; simp add: ensure_buckets_def hit_bucket_def buckets_of_upd incr_at_commute fun_upd_twist)+

lemma run_op_commute: "run_op x (run_op y m) = run_op y (run_op x m)"
  by (cases x; cases y) (simp_all add: bump_commute bucket_ops_commute add_ac)

lemma run_ops_perm: "mset us = mset vs \<Longrightarrow> run_ops us m = run_ops vs m"
  unfolding run_ops_def
  by (rule fun_cong [OF fold_multiset_equiv]) (auto simp: run_op_commute)

subsection \<open>What the counters count\<close>

abbreviation obs_op :: "observed \<Rightarrow> string" where
  "obs_op r \<equiv> classifyOperation (fst r) (fst (snd r))"

abbreviation obs_micros :: "observed \<Rightarrow> nat" where
  "obs_micros r \<equiv> snd (snd (snd r))"

abbreviation obs_status :: "observed \<Rightarrow> int" where
  "obs_status r \<equiv> fst (snd (snd r))"

definition sequential :: "observed list \<Rightarrow> vault_metrics" where
  "sequential rs = run_ops (concat (map metric_ops rs)) zero_metrics"

lemma sequential_snoc: "sequential (rs @ [r]) = run_ops (metric_ops r) (sequential rs)"
  by (simp add: sequential_def run_ops_def)

lemma sequential_Nil [simp]: "sequential [] = zero_metrics"
  by (simp add: sequential_def run_ops_def)

lemma run_bucket_ops:
  "run_ops (map (OBucket k) is) m =
     m\<lparr>vaultDurationBucketsByOp := fold (hit_bucket k) is (vaultDurationBucketsByOp m)\<rparr>"
  unfolding run_ops_def by (induction "is" arbitrary: m) simp_all

lemma fold_hit_buckets:
  assumes "distinct is"
  shows "fold (hit_bucket k) is m j = (if j \<noteq> k \<or> is = [] then m j else Some (fold incr_at is (buckets_of m k)))"
  by (induction "is" arbitrary: m) (auto simp: hit_bucket_def buckets_of_upd)

lemma fold_incr_at:
  assumes "distinct is" "\<forall>i \<in> set is. i < length bs"
  shows "length (fold incr_at is bs) = length bs
    \<and> (\<forall>j < length bs. fold incr_at is bs ! j = bs ! j + (if j \<in> set is then 1 else 0))"
  using assms by (induction "is" arbitrary: bs) (auto simp: incr_at_def nth_list_update)

lemma observe:
  fixes r :: observed and m :: vault_metrics
  defines "m' \<equiv> run_ops (metric_ops r) m"
  shows "vaultRequestsTotal m' = vaultRequestsTotal m + 1"
    and "vaultRequestsByStatus m' = bump (FormatInt (obs_status r)) 1 (vaultRequestsByStatus m)"
    and "vaultDurationCountByOperation m' = bump (obs_op r) 1 (vaultDurationCountByOperation m)"
    and "vaultDurationBucketsByOp m' =
           (vaultDurationBucketsByOp m)(obs_op r \<mapsto>
              fold incr_at (bucket_hits (obs_micros r)) (buckets_of (vaultDurationBucketsByOp m) (obs_op r)))"
proof -
  obtain meth p st d where r: "r = (meth, p, st, d)" by (cases r)
  have m': "m' = run_ops (map (OBucket (classifyOperation meth p)) (bucket_hits d))
      (run_ops [OTotal, ODuration d, OStatus (FormatInt st),
         OOpStatus (classifyOperation meth p @ ''|'' @ classifyStatusClass st),
         OSum (classifyOperation meth p) d, OCount (classifyOperation meth p), OBuckets (classifyOperation meth p)] m)"
    by (simp add: m'_def r Let_def run_ops_def)
  have d: "distinct (bucket_hits d)" by (simp add: bucket_hits_def)
  show "vaultRequestsTotal m' = vaultRequestsTotal m + 1"
    and "vaultRequestsByStatus m' = bump (FormatInt (obs_status r)) 1 (vaultRequestsByStatus m)"
    and "vaultDurationCountByOperation m' = bump (obs_op r) 1 (vaultDurationCountByOperation m)"
    unfolding m' run_bucket_ops by (simp_all add: run_ops_def r)
  show "vaultDurationBucketsByOp m' =
           (vaultDurationBucketsByOp m)(obs_op r \<mapsto>
              fold incr_at (bucket_hits (obs_micros r)) (buckets_of (vaultDurationBucketsByOp m) (obs_op r)))"
    unfolding m' run_bucket_ops
    by (rule ext) (simp add: run_ops_def r fold_hit_buckets [OF d] ensure_buckets_def buckets_of_upd)
qed

lemma sequential_counts:
  shows "vaultRequestsTotal (sequential rs) = of_nat (length rs)"
    and "vaultRequestsByStatus (sequential rs) s =
           (let n = length (filter (\<lambda>r. FormatInt (obs_status r) = s) rs) in if n = 0 then None else Some (of_nat n))"
    and "vaultDurationCountByOperation (sequential rs) k =
           (let n = length (filter (\<lambda>r. obs_op r = k) rs) in if n = 0 then None else Some (of_nat n))"
proof (induction rs rule: rev_induct)
  case Nil
  show "vaultRequestsTotal (sequential []) = of_nat (length [])"
    and "vaultRequestsByStatus (sequential []) s =
           (let n = length (filter (\<lambda>r. FormatInt (obs_status r) = s) []) in if n = 0 then None else Some (of_nat n))"
    and "vaultDurationCountByOperation (sequential []) k =
           (let n = length (filter (\<lambda>r. obs_op r = k) []) in if n = 0 then None else Some (of_nat n))"
    by (simp_all add: zero_metrics_def)
next
  case (snoc r rs)
  show "vaultRequestsTotal (sequential (rs @ [r])) = of_nat (length (rs @ [r]))"
    using snoc by (simp add: sequential_snoc observe)
  show "vaultRequestsByStatus (sequential (rs @ [r])) s =
           (let n = length (filter (\<lambda>r. FormatInt (obs_status r) = s) (rs @ [r])) in if n = 0 then None else Some (of_nat n))"
    using snoc(2)
    by (cases "FormatInt (obs_status r) = s") (auto simp: sequential_snoc observe bump_def Let_def)
  show "vaultDurationCountByOperation (sequential (rs @ [r])) k =
           (let n = length (filter (\<lambda>r. obs_op r = k) (rs @ [r])) in if n = 0 then None else Some (of_nat n))"
    using snoc(3) by (cases "obs_op r = k") (auto simp: sequential_snoc observe bump_def Let_def)
qed

lemma bucket_hits_set: "set (bucket_hits d) = {i. i < length durationBuckets \<and> d \<le> durationBuckets ! i}"
  "distinct (bucket_hits d)"
  by (auto simp: bucket_hits_def)

lemma sequential_buckets:
  "length (buckets_of (vaultDurationBucketsByOp (sequential rs)) k) = length durationBuckets
   \<and> (\<forall>i < length durationBuckets. buckets_of (vaultDurationBucketsByOp (sequential rs)) k ! i
        = of_nat (length (filter (\<lambda>r. obs_op r = k \<and> obs_micros r \<le> durationBuckets ! i) rs)))
   \<and> (vaultDurationBucketsByOp (sequential rs) k \<noteq> None \<longleftrightarrow> (\<exists>r \<in> set rs. obs_op r = k))"
proof (induction rs rule: rev_induct)
  case Nil
  show ?case by (simp add: zero_metrics_def buckets_of_def)
next
  case (snoc r rs)
  let ?m = "vaultDurationBucketsByOp (sequential rs)" and ?is = "bucket_hits (obs_micros r)"
  have len: "length (buckets_of ?m k) = length durationBuckets" using snoc by blast
  have incr: "length (fold incr_at ?is (buckets_of ?m k)) = length durationBuckets
      \<and> (\<forall>j < length durationBuckets. fold incr_at ?is (buckets_of ?m k) ! j
           = buckets_of ?m k ! j + (if j \<in> set ?is then 1 else 0))"
    using fold_incr_at [of ?is "buckets_of ?m k"] by (simp add: len bucket_hits_set)
  have m: "vaultDurationBucketsByOp (sequential (rs @ [r])) = ?m(obs_op r \<mapsto> fold incr_at ?is (buckets_of ?m (obs_op r)))"
    by (simp add: sequential_snoc observe)
  show ?case
  proof (cases "obs_op r = k")
    case True
    then have "buckets_of (vaultDurationBucketsByOp (sequential (rs @ [r]))) k = fold incr_at ?is (buckets_of ?m k)"
      and "vaultDurationBucketsByOp (sequential (rs @ [r])) k \<noteq> None"
      by (simp_all add: m buckets_of_upd del: fun_upd_apply) (simp add: True)
    then show ?thesis using True snoc incr by (simp add: bucket_hits_set(1))
  next
    case False
    then have "buckets_of (vaultDurationBucketsByOp (sequential (rs @ [r]))) k = buckets_of ?m k"
      and "vaultDurationBucketsByOp (sequential (rs @ [r])) k = ?m k"
      by (simp_all add: m buckets_of_def)
    then show ?thesis using False snoc by simp
  qed
qed

lemma interleaved_sequential:
  "interleave (map metric_ops rs) ops \<Longrightarrow> run_ops ops zero_metrics = sequential rs"
  unfolding sequential_def by (rule run_ops_perm) (rule interleave_mset)

text \<open>C31: However the counter updates of concurrent requests interleave, once all have finished each
  counter is exact (modulo 2 to the 64): the total, the requests of each status, and the requests
  of each operation.\<close>

theorem metrics_exact:
  assumes "interleave (map metric_ops rs) ops"
  shows "vaultRequestsTotal (run_ops ops zero_metrics) = of_nat (length rs)
    \<and> vaultRequestsByStatus (run_ops ops zero_metrics) s =
        (let n = length (filter (\<lambda>r. FormatInt (obs_status r) = s) rs) in if n = 0 then None else Some (of_nat n))
    \<and> vaultDurationCountByOperation (run_ops ops zero_metrics) k =
        (let n = length (filter (\<lambda>r. obs_op r = k) rs) in if n = 0 then None else Some (of_nat n))"
  unfolding interleaved_sequential [OF assms] by (intro conjI sequential_counts)

lemma interleave_single: "interleave [xs] xs"
proof (induction xs)
  case (Cons x xs)
  then show ?case using interleave.step [of 0 "[x # xs]" x xs xs] by simp
qed (auto intro: interleave.idle)

lemma metrics_exact_witness:
  "vaultRequestsTotal (run_ops (metric_ops (''GET'', ''/x'', 404, 7)) zero_metrics) = 1"
  using metrics_exact [of "[(''GET'', ''/x'', 404, 7)]" "metric_ops (''GET'', ''/x'', 404, 7)"]
    interleave_single [of "metric_ops (''GET'', ''/x'', 404, 7)"] by simp

text \<open>C32: The buckets are a cumulative histogram: below 2 to the 64 requests, the counter of each
  bound is the number of requests of the operation that took at most that long, a larger bound
  counts at least as many, and none more than the operation's total.\<close>

theorem metrics_cumulative:
  assumes "interleave (map metric_ops rs) ops" "length rs < 2 ^ 64"
    and "vaultDurationBucketsByOp (run_ops ops zero_metrics) k = Some bs" "i \<le> j" "j < length durationBuckets"
  shows "unat (bs ! i) = length (filter (\<lambda>r. obs_op r = k \<and> obs_micros r \<le> durationBuckets ! i) rs)
    \<and> unat (bs ! i) \<le> unat (bs ! j)
    \<and> (\<exists>c. vaultDurationCountByOperation (run_ops ops zero_metrics) k = Some c \<and> unat (bs ! j) \<le> unat c)"
proof -
  note seq = interleaved_sequential [OF assms(1)]
  have bs: "buckets_of (vaultDurationBucketsByOp (sequential rs)) k = bs"
    using assms(3) by (simp add: seq buckets_of_def)
  have le: "durationBuckets ! i \<le> durationBuckets ! j"
  proof -
    have "sorted durationBuckets" by (simp add: durationBuckets_def)
    then show ?thesis using assms(4,5) by (rule sorted_nth_mono)
  qed
  have small: "unat (of_nat (length (filter P rs)) :: 64 word) = length (filter P rs)" for P
  proof -
    have "length (filter P rs) < 2 ^ 64" using length_filter_le assms(2) by (rule le_less_trans)
    then show ?thesis by (simp add: unat_of_nat)
  qed
  have at: "unat (bs ! l) = length (filter (\<lambda>r. obs_op r = k \<and> obs_micros r \<le> durationBuckets ! l) rs)"
    if "l < length durationBuckets" for l
    using sequential_buckets [of rs k] that small by (simp add: bs)
  have mono: "length (filter P rs) \<le> length (filter Q rs)" if "\<And>r. P r \<Longrightarrow> Q r" for P Q
  proof -
    have "filter P rs = filter P (filter Q rs)" using that by (auto intro: filter_cong simp: filter_filter)
    then show ?thesis by (metis length_filter_le)
  qed
  have "\<exists>r \<in> set rs. obs_op r = k"
    using sequential_buckets [of rs k] assms(3) by (simp add: seq)
  then have "filter (\<lambda>r. obs_op r = k) rs \<noteq> []" by (auto simp: filter_empty_conv)
  then have "vaultDurationCountByOperation (sequential rs) k = Some (of_nat (length (filter (\<lambda>r. obs_op r = k) rs)))"
    using sequential_counts(3) [of rs k] by (simp add: Let_def)
  moreover have "unat (bs ! j) \<le> length (filter (\<lambda>r. obs_op r = k) rs)"
    unfolding at [OF assms(5)] by (rule mono) simp
  moreover have "unat (bs ! i) \<le> unat (bs ! j)"
    unfolding at [OF assms(5)] using assms(4,5) le by (subst at) (auto intro: mono)
  moreover have "i < length durationBuckets" using assms(4,5) by simp
  ultimately show ?thesis using at small by (simp add: seq)
qed

text \<open>One request of 20 milliseconds.\<close>

lemma metrics_cumulative_witness:
  "\<exists>bs. vaultDurationBucketsByOp (sequential [(''GET'', ''/x'', 200, 20000)]) ''other'' = Some bs
     \<and> unat (bs ! 0) = 0 \<and> unat (bs ! 1) = 1"
proof -
  let ?r = "(''GET'', ''/x'', 200, 20000) :: observed"
  have il: "interleave (map metric_ops [?r]) (metric_ops ?r)" using interleave_single by simp
  have op: "classifyOperation ''GET'' ''/x'' = ''other''" by (simp add: classifyOperation_def HasPrefix_def)
  have run: "run_ops (metric_ops ?r) zero_metrics = sequential [?r]"
    using interleaved_sequential [OF il] .
  have "vaultDurationBucketsByOp (sequential [?r]) ''other'' \<noteq> None"
    using sequential_buckets [of "[?r]" "''other''"] op by simp
  then obtain bs where bs: "vaultDurationBucketsByOp (sequential [?r]) ''other'' = Some bs" by auto
  have at: "durationBuckets ! 0 = 10000" "durationBuckets ! Suc 0 = 25000" "length durationBuckets = 9"
    by (simp_all add: durationBuckets_def)
  note count = metrics_cumulative [OF il _ bs [folded run], THEN conjunct1]
  have "unat (bs ! 0) = 0" using count [of 0 0] by (simp add: at op)
  moreover have "unat (bs ! 1) = 1" using count [of 1 1] by (simp add: at op)
  ultimately show ?thesis using bs by blast
qed

lemma metric_ops_guarded:
  "guarded (OCount k) (OBuckets k) (metric_ops r)" "guarded (OCount k) (OBucket k i) (metric_ops r)"
proof -
  obtain meth p st d where r: "r = (meth, p, st, d)" by (cases r)
  have "guarded (OCount k) b (metric_ops r)" if "b \<in> {OBuckets k, OBucket k i}" for b
  proof (cases "classifyOperation meth p = k")
    case True
    then show ?thesis using that by (auto simp: r Let_def)
  next
    case False
    then show ?thesis using that by (intro guarded_notin) (auto simp: r Let_def)
  qed
  then show "guarded (OCount k) (OBuckets k) (metric_ops r)" "guarded (OCount k) (OBucket k i) (metric_ops r)"
    by blast+
qed

text \<open>No histogram without its request count: what the endpoint needs.\<close>

definition metrics_safe :: "vault_metrics \<Rightarrow> bool" where
  "metrics_safe m \<longleftrightarrow> (\<forall>k. vaultDurationBucketsByOp m k \<noteq> None \<longrightarrow> vaultDurationCountByOperation m k \<noteq> None)"

lemma all_some_None: "all_some xs = None \<longleftrightarrow> None \<in> set xs"
  by (induction xs rule: all_some.induct) auto

lemma safe_handler:
  assumes "metrics_safe m"
  shows "MetricsHandler order m \<noteq> None"
proof -
  have some: "vaultDurationBucketsByOp m k = None \<or> vaultDurationCountByOperation m k \<noteq> None" for k
    using assms by (auto simp: metrics_safe_def)
  have "bucket_samples m k \<noteq> None" for k
    using some [of k] by (auto simp: bucket_samples_def split: option.split)
  then have "all_some (map (bucket_samples m) ks) \<noteq> None" for ks
    unfolding all_some_None by (metis ex_map_conv)
  then show ?thesis by (auto simp: MetricsHandler_def split: option.split)
qed

lemma safe_observe: "metrics_safe m \<Longrightarrow> metrics_safe (run_ops (metric_ops r) m)"
  unfolding metrics_safe_def observe by (auto simp: bump_def)

lemma count_stays:
  "vaultDurationCountByOperation m k \<noteq> None \<Longrightarrow> vaultDurationCountByOperation (run_ops us m) k \<noteq> None"
  unfolding run_ops_def
proof (induction us arbitrary: m)
  case (Cons x us)
  have "vaultDurationCountByOperation (run_op x m) k \<noteq> None"
    using Cons.prems by (cases x) (auto simp: bump_def)
  from Cons.IH [OF this] show ?case by simp
qed simp

lemma buckets_need_count:
  assumes "guarded (OCount k) (OBuckets k) us" "\<forall>i. guarded (OCount k) (OBucket k i) us"
    "vaultDurationBucketsByOp (run_ops us m) k \<noteq> None" "vaultDurationBucketsByOp m k = None"
  shows "vaultDurationCountByOperation (run_ops us m) k \<noteq> None"
  using assms
proof (induction us arbitrary: m)
  case Nil
  then show ?case by (simp add: run_ops_def)
next
  case (Cons x us)
  show ?case
  proof (cases "x = OCount k")
    case True
    then have "vaultDurationCountByOperation (run_op x m) k \<noteq> None" by (simp add: bump_def)
    from count_stays [OF this] show ?thesis by (simp add: run_ops_def)
  next
    case False
    with Cons.prems have "vaultDurationBucketsByOp (run_op x m) k = None"
      by (cases x) (auto simp: ensure_buckets_def hit_bucket_def)
    with Cons.IH [of "run_op x m"] Cons.prems False show ?thesis by (simp add: run_ops_def)
  qed
qed

text \<open>The metrics endpoint never panics: at whatever moment of whatever interleaving it runs, every
  operation that has a histogram already has its request count.\<close>

lemma metrics_handler_total:
  assumes "interleave (map metric_ops rs) (us @ vs)"
  shows "MetricsHandler order (run_ops us zero_metrics) \<noteq> None"
proof -
  have "guarded a b us" if "\<And>r. guarded a b (metric_ops r)" for a b
  proof -
    have "\<forall>xs \<in> set (map metric_ops rs). guarded a b xs" using that by (simp del: metric_ops.simps)
    then show ?thesis by (rule interleave_guarded [OF assms, THEN guarded_prefix])
  qed
  then have guard: "guarded (OCount k) (OBuckets k) us" "\<forall>i. guarded (OCount k) (OBucket k i) us" for k
    by (simp_all add: metric_ops_guarded del: metric_ops.simps)
  have "vaultDurationBucketsByOp zero_metrics k = None" for k by (simp add: zero_metrics_def)
  with buckets_need_count [OF guard, where m = zero_metrics]
  have "metrics_safe (run_ops us zero_metrics)" unfolding metrics_safe_def by blast
  then show ?thesis by (rule safe_handler)
qed

lemma metrics_handler_total_witness:
  "MetricsHandler (\<lambda>_. [''other'']) (run_ops (take 3 (metric_ops (''GET'', ''/x'', 200, 5))) zero_metrics) \<noteq> None"
proof -
  let ?r = "(''GET'', ''/x'', 200, 5) :: observed"
  have "interleave (map metric_ops [?r]) (take 3 (metric_ops ?r) @ drop 3 (metric_ops ?r))"
    unfolding append_take_drop_id using interleave_single by simp
  from metrics_handler_total [OF this] show ?thesis .
qed

end
