(* ===== verification/Server.thy ===== *)
theory Server
  imports VaultApi Metrics
begin

text \<open>
  \<open>vault-api/cmd/server/main.go\<close>: the startup guard, the route table, and the middleware around it
  (\<open>SecurityHeaders\<close>, then \<open>Metrics\<close>, and \<open>JWT\<close> on the audit and checkpoint routes), with
  \<open>middleware/security_headers.go\<close> and the pass-through \<open>middleware/ratelimit.go\<close>. The router
  (\<open>chi\<close>) is a parameter that picks a route of the table or answers itself; it sees the path as it
  was sent (\<open>route_path\<close>), the handlers see the decoded one. \<open>documented_router\<close> says that it picks
  only a route whose method and pattern fit. \<open>render\<close> prints the samples of the metrics endpoint.
\<close>

subsection \<open>Middleware\<close>

definition apostrophes :: "string \<Rightarrow> string" where
  "apostrophes s = CHR 0x27 # s @ [CHR 0x27]"

definition content_security_policy :: string where
  "content_security_policy =
     ''default-src '' @ apostrophes ''self'' @ ''; script-src '' @ apostrophes ''self''
     @ ''; style-src '' @ apostrophes ''self'' @ '' '' @ apostrophes ''unsafe-inline''
     @ ''; img-src '' @ apostrophes ''self'' @ '' data:; connect-src '' @ apostrophes ''self''
     @ ''; object-src '' @ apostrophes ''none'' @ ''; frame-ancestors '' @ apostrophes ''none''
     @ ''; base-uri '' @ apostrophes ''self'' @ ''; form-action '' @ apostrophes ''self''"

definition security_headers :: "(string \<times> string) list" where
  "security_headers =
     [(''Content-Security-Policy'', content_security_policy), (''X-Content-Type-Options'', ''nosniff''),
      (''X-Frame-Options'', ''DENY''), (''Referrer-Policy'', ''no-referrer'')]"

definition SecurityHeaders :: "'s handler \<Rightarrow> 's handler" where
  "SecurityHeaders nxt ctx req s =
     (case nxt ctx req s of
        (s', r) \<Rightarrow> (s', map_option (\<lambda>r. r\<lparr>headers := security_headers @ headers r\<rparr>) r))"

definition RateLimit :: "'s handler \<Rightarrow> 's handler" where
  "RateLimit nxt ctx req s = nxt ctx req s"

subsection \<open>The route table\<close>

datatype endpoint =
    Healthz | Readyz | MetricsPage | PostEvidence | GetEvidenceById | GetProofById
  | AuditLog | CheckpointHistory | LatestCheckpoint | VerifyLatest | VerifyBySize

text \<open>Method (\<open>*\<close> for any), pattern, whether the JWT middleware wraps it, and the handler.\<close>

definition routes :: "(string \<times> string \<times> bool \<times> endpoint) list" where
  "routes =
     [(''GET'', ''/healthz'', False, Healthz),
      (''GET'', ''/readyz'', False, Readyz),
      (''*'', ''/metrics'', False, MetricsPage),
      (''POST'', ''/api/v1/evidence'', False, PostEvidence),
      (''GET'', ''/api/v1/evidence/{id}'', False, GetEvidenceById),
      (''GET'', ''/api/v1/evidence/{id}/proof'', False, GetProofById),
      (''GET'', ''/api/v1/audit'', True, AuditLog),
      (''GET'', ''/api/v1/checkpoints'', True, CheckpointHistory),
      (''GET'', ''/api/v1/checkpoints/latest'', True, LatestCheckpoint),
      (''GET'', ''/api/v1/checkpoints/latest/verify'', True, VerifyLatest),
      (''GET'', ''/api/v1/checkpoints/{treeSize}/verify'', True, VerifyBySize)]"

definition placeholder :: "string \<Rightarrow> bool" where
  "placeholder seg \<longleftrightarrow> seg \<noteq> [] \<and> hd seg = CHR ''{'' \<and> last seg = CHR ''}''"

text \<open>A pattern fits a path segment by segment; a placeholder stands for any one segment. It may be
  empty: \<open>chi\<close> v5.0.8 takes \<open>/api/v1/evidence//proof\<close> for the route of the proofs (an empty last
  segment it refuses, which is not needed here).\<close>

definition pattern_fits :: "string \<Rightarrow> string \<Rightarrow> bool" where
  "pattern_fits pat p \<longleftrightarrow>
     list_all2 (\<lambda>s t. s = t \<or> placeholder s) (Split1 pat (CHR ''/'')) (Split1 p (CHR ''/''))"

text \<open>The path that \<open>chi\<close> routes on: the raw path when there is one, and never the empty text.\<close>

definition route_path :: "http_request \<Rightarrow> string" where
  "route_path req =
     (if raw_path req \<noteq> [] then raw_path req else if path req \<noteq> [] then path req else ''/'')"

text \<open>The router: an index into the table, or its own answer to an unmatched request.\<close>

lemma route_path_authorization [simp]: "route_path (req\<lparr>authorization := a\<rparr>) = route_path req"
  by (simp add: route_path_def)

type_synonym chi_router = "string \<Rightarrow> string \<Rightarrow> http_response + nat"

definition documented_router :: "chi_router \<Rightarrow> bool" where
  "documented_router router \<longleftrightarrow>
     (\<forall>meth p i. router meth p = Inr i \<longrightarrow>
        i < length routes
        \<and> (fst (routes ! i) = ''*'' \<or> fst (routes ! i) = meth)
        \<and> pattern_fits (fst (snd (routes ! i))) p)"

subsection \<open>Serving\<close>

text \<open>What the process reads from outside for one request.\<close>

record 'jwks world =
  w_env :: env
  w_ops :: "any_store store_ops"
  w_fresh :: string
  w_now :: int
  w_micros :: nat
  w_post :: "string \<Rightarrow> string \<Rightarrow> (int \<times> string) option"
  w_verify :: "bytes \<Rightarrow> bytes \<Rightarrow> bytes \<Rightarrow> bool"
  w_lib :: "'jwks jwt_lib"
  w_conv :: "rat \<Rightarrow> int"
  w_order :: "nat \<Rightarrow> string list"
  w_render :: "sample list \<Rightarrow> string"

definition lift_vault :: "vault handler \<Rightarrow> (vault \<times> vault_metrics) handler" where
  "lift_vault h ctx req s = (case h ctx req (fst s) of (v, r) \<Rightarrow> ((v, snd s), r))"

definition plain_text :: "string \<Rightarrow> http_response" where
  "plain_text t = \<lparr>status = 200, headers = [], content = t\<rparr>"

definition ok_body :: "string \<Rightarrow> string" where
  "ok_body word = json_print (JObj [(''status'', JStr word)])"

fun endpoint_handler :: "'j world \<Rightarrow> endpoint \<Rightarrow> (vault \<times> vault_metrics) handler" where
  "endpoint_handler w Healthz ctx req s = (s, Some (plain_text (ok_body ''ok'')))"
| "endpoint_handler w Readyz ctx req s = (s, Some (plain_text (ok_body ''ready'')))"
| "endpoint_handler w MetricsPage ctx req s =
     (s, map_option (\<lambda>xs. \<lparr>status = 200, headers = [(''Content-Type'', ''text/plain; version=0.0.4'')],
                            content = w_render w xs\<rparr>)
           (MetricsHandler (w_order w) (snd s)))"
| "endpoint_handler w PostEvidence ctx req s =
     lift_vault (Ingest (w_ops w) (w_fresh w) (w_now w) (w_now w)) ctx req s"
| "endpoint_handler w GetEvidenceById ctx req s = lift_vault (GetEvidence (w_ops w)) ctx req s"
| "endpoint_handler w GetProofById ctx req s = lift_vault GetProof ctx req s"
| "endpoint_handler w AuditLog ctx req s = lift_vault GetAudit ctx req s"
| "endpoint_handler w CheckpointHistory ctx req s =
     lift_vault (GetCheckpointsHistory (w_env w) (w_post w)) ctx req s"
| "endpoint_handler w LatestCheckpoint ctx req s =
     lift_vault (GetCheckpointsLatest (w_env w) (w_post w)) ctx req s"
| "endpoint_handler w VerifyLatest ctx req s =
     lift_vault (VerifyLatestCheckpoint (w_env w) (w_post w) (w_verify w)) ctx req s"
| "endpoint_handler w VerifyBySize ctx req s =
     lift_vault (VerifyCheckpointByTreeSize (w_env w) (w_verify w)) ctx req s"

text \<open>Each protected route has a middleware of its own, with the settings and the key set that it
  loaded when the server started.\<close>

definition route_handler ::
  "'j world \<Rightarrow> jwt_settings \<Rightarrow> (nat \<Rightarrow> 'j option) \<Rightarrow> nat \<Rightarrow> (vault \<times> vault_metrics) handler" where
  "route_handler w cfg loaded i =
     (let (meth, pat, protected, e) = routes ! i
      in if protected then JWT (w_lib w) (w_conv w) cfg (loaded i) (w_now w) (endpoint_handler w e)
         else endpoint_handler w e)"

definition dispatch ::
  "'j world \<Rightarrow> jwt_settings \<Rightarrow> (nat \<Rightarrow> 'j option) \<Rightarrow> chi_router
     \<Rightarrow> (vault \<times> vault_metrics) handler" where
  "dispatch w cfg loaded router ctx req s =
     (case router (http_method req) (route_path req) of
        Inl r \<Rightarrow> (s, Some r)
      | Inr i \<Rightarrow> route_handler w cfg loaded i ctx req s)"

definition serve ::
  "'j world \<Rightarrow> jwt_settings \<Rightarrow> (nat \<Rightarrow> 'j option) \<Rightarrow> chi_router
     \<Rightarrow> http_request \<Rightarrow> vault \<times> vault_metrics \<Rightarrow> (vault \<times> vault_metrics) \<times> http_response option" where
  "serve w cfg loaded router req s =
     SecurityHeaders (Metrics (w_micros w) (dispatch w cfg loaded router)) background req s"

text \<open>The process: nothing is served when the startup guard refuses.\<close>

definition start_server ::
  "env \<Rightarrow> (nat \<Rightarrow> nat \<Rightarrow> 'j option \<times> bool) \<Rightarrow> startup_error + (jwt_settings \<times> (nat \<Rightarrow> 'j option))" where
  "start_server getenv fetch =
     (case ValidateAuthStartupConfig getenv of
        Inl e \<Rightarrow> Inl e
      | Inr _ \<Rightarrow> (let cfg = jwt_read_settings getenv in Inr (cfg, \<lambda>i. jwt_load cfg (fetch i))))"

definition listen_addr :: "env \<Rightarrow> string" where
  "listen_addr getenv = (if getenv ''HTTP_ADDR'' = [] then '':8443'' else getenv ''HTTP_ADDR'')"

subsection \<open>What the routes guarantee\<close>

fun join_segments :: "string list \<Rightarrow> string" where
  "join_segments [] = []"
| "join_segments [s] = s"
| "join_segments (s # t # ss) = s @ CHR ''/'' # join_segments (t # ss)"

lemma join_split: "join_segments (Split1 p (CHR ''/'')) = p"
proof (induction p)
  case (Cons c p)
  have "Split1 p (CHR ''/'') \<noteq> []" by (induction p) (auto split: list.split)
  then obtain t ts where "Split1 p (CHR ''/'') = t # ts" by (cases "Split1 p (CHR ''/'')") auto
  with Cons show ?case by (cases ts) auto
qed simp

lemma evidence_pattern_segments:
  "Split1 ''/api/v1/evidence/{id}'' (CHR ''/'') = ['''', ''api'', ''v1'', ''evidence'', ''{id}'']"
  "Split1 ''/api/v1/evidence/{id}/proof'' (CHR ''/'') = ['''', ''api'', ''v1'', ''evidence'', ''{id}'', ''proof'']"
  by simp_all

lemma pattern_fits_evidence:
  assumes "pattern_fits ''/api/v1/evidence/{id}'' p \<or> pattern_fits ''/api/v1/evidence/{id}/proof'' p"
  shows "HasPrefix p evidence_prefix" and "length evidence_prefix \<le> length p"
proof -
  have "\<exists>t ts. Split1 p (CHR ''/'') = '''' # ''api'' # ''v1'' # ''evidence'' # t # ts"
    using assms unfolding pattern_fits_def evidence_pattern_segments
    by (auto simp: list_all2_Cons1 placeholder_def)
  then obtain t ts where split: "Split1 p (CHR ''/'') = '''' # ''api'' # ''v1'' # ''evidence'' # t # ts" by blast
  have "p = evidence_prefix @ join_segments (t # ts)"
    using join_split [of p] by (simp add: split evidence_prefix_def)
  then show "HasPrefix p evidence_prefix" "length evidence_prefix \<le> length p"
    by (metis HasPrefix_append, metis le_add1 length_append)
qed

text \<open>The handlers cut the prefix off the decoded path, which still has it: none of its characters is
  encoded in a raw path that fits the pattern.\<close>

lemma decoded_prefix:
  assumes "parsed_path req"
    and "pattern_fits ''/api/v1/evidence/{id}'' (route_path req) \<or> pattern_fits ''/api/v1/evidence/{id}/proof'' (route_path req)"
  shows "length evidence_prefix \<le> length (path req)"
proof (cases "raw_path req = []")
  case True
  show ?thesis
  proof (cases "path req = []")
    case False
    with True have "route_path req = path req" by (simp add: route_path_def)
    then show ?thesis using pattern_fits_evidence(2) [OF assms(2)] by simp
  next
    case empty: True
    then have "route_path req = ''/''" using True by (simp add: route_path_def)
    then show ?thesis using pattern_fits_evidence(2) [OF assms(2)] by (simp add: evidence_prefix_def)
  qed
next
  case False
  then obtain rest where raw: "raw_path req = evidence_prefix @ rest"
    using pattern_fits_evidence(1) [OF assms(2)] by (auto simp: route_path_def HasPrefix_iff)
  have "CHR ''%'' \<notin> set evidence_prefix" by (simp add: evidence_prefix_def)
  moreover have "PathUnescape (raw_path req) = Some (path req)" using assms(1) False by (simp add: parsed_path_def)
  ultimately have "map_option ((@) evidence_prefix) (PathUnescape rest) = Some (path req)"
    by (simp add: raw PathUnescape_prefix)
  then obtain z where "evidence_prefix @ z = path req" by auto
  then show ?thesis by (metis le_add1 length_append)
qed

lemma ingest_answers: "snd (Ingest ops i now now' ctx req v) \<noteq> None"
  by (auto simp: Ingest_def Let_def split: option.split)

lemma build_answers:
  "snd (GetCheckpointsLatest getenv post ctx req v) \<noteq> None"
  "snd (GetCheckpointsHistory getenv post ctx req v) \<noteq> None"
  "snd (VerifyLatestCheckpoint getenv post verify ctx req v) \<noteq> None"
  by (auto simp: GetCheckpointsLatest_def GetCheckpointsHistory_def VerifyLatestCheckpoint_def Let_def
      split: prod.split sum.split)

lemma evidence_answers:
  assumes "length evidence_prefix \<le> length (path req)"
  shows "snd (GetEvidence ops ctx req v) \<noteq> None" "snd (GetProof ctx req v) \<noteq> None"
  using assms by (auto simp: GetEvidence_def GetProof_def Let_def split: option.split sum.split prod.split)

lemma lift_answers: "snd (lift_vault h ctx req s) = snd (h ctx req (fst s))"
  "snd (fst (lift_vault h ctx req s)) = snd s"
  by (simp_all add: lift_vault_def split: prod.split)

text \<open>Every handler answers a request that the router gave it, and leaves the metrics alone.\<close>

lemma endpoint_answers:
  assumes "metrics_safe (snd s)" "parsed_path req" "pattern_fits pat (route_path req)" "(meth, pat, protected, e) \<in> set routes"
  shows "snd (endpoint_handler w e ctx req s) \<noteq> None" "snd (fst (endpoint_handler w e ctx req s)) = snd s"
proof -
  have long: "length evidence_prefix \<le> length (path req)" if "e = GetEvidenceById \<or> e = GetProofById"
  proof -
    have "pat = ''/api/v1/evidence/{id}'' \<or> pat = ''/api/v1/evidence/{id}/proof''"
      using assms(4) that by (auto simp: routes_def)
    then show ?thesis using assms(2,3) decoded_prefix by blast
  qed
  show "snd (endpoint_handler w e ctx req s) \<noteq> None"
    using long ingest_answers build_answers evidence_answers safe_handler [OF assms(1)]
    by (cases e) (auto simp: lift_answers GetAudit_def VerifyCheckpointByTreeSize_def)
  show "snd (fst (endpoint_handler w e ctx req s)) = snd s"
    by (cases e) (simp_all add: lift_answers)
qed

text \<open>C22: No request makes the server panic: with a router that hands a request only to a route whose
  method and pattern fit the path as it was sent (a placeholder may stand for nothing), every
  request is answered, with the four security headers first, and the counters stay in a state that
  the metrics endpoint can report. The path that the handlers cut is the decoded one.\<close>

theorem server_never_panics:
  assumes "documented_router router" "parsed_path req" "metrics_safe (snd s)"
  shows "\<exists>s' r. serve w cfg loaded router req s = (s', Some r) \<and> metrics_safe (snd s')
    \<and> take 4 (headers r) = security_headers"
proof -
  let ?d = "dispatch w cfg loaded router background req s"
  have d: "snd ?d \<noteq> None \<and> snd (fst ?d) = snd s"
  proof (cases "router (http_method req) (route_path req)")
    case (Inl r)
    then show ?thesis by (simp add: dispatch_def)
  next
    case (Inr i)
    then have i: "i < length routes" "pattern_fits (fst (snd (routes ! i))) (route_path req)"
      using assms(1) by (auto simp: documented_router_def)
    obtain meth pat protected e where r: "routes ! i = (meth, pat, protected, e)" by (metis prod_cases4)
    then have mem: "(meth, pat, protected, e) \<in> set routes" using i(1) nth_mem by metis
    note ans = endpoint_answers [OF assms(3,2) _ mem]
    have fit: "pattern_fits pat (route_path req)" using i(2) by (simp add: r)
    show ?thesis
      using ans [OF fit] Inr r by (auto simp: dispatch_def route_handler_def JWT_def Let_def split: option.split)
  qed
  then obtain s1 r where s1: "?d = (s1, Some r)" "snd s1 = snd s" by (cases ?d) auto
  have "metrics_safe (run_ops (metric_ops (http_method req, path req, status r, w_micros w)) (snd s1))"
    using safe_observe [of "snd s1"] assms(3) s1(2) by (simp del: metric_ops.simps)
  then show ?thesis
    by (simp add: serve_def SecurityHeaders_def Metrics_def s1(1) security_headers_def del: metric_ops.simps)
qed

text \<open>A router for the witnesses: the first route of the table that fits.\<close>

definition first_route :: chi_router where
  "first_route meth p =
     (case List.find (\<lambda>i. (fst (routes ! i) = ''*'' \<or> fst (routes ! i) = meth) \<and> pattern_fits (fst (snd (routes ! i))) p)
             [0..<length routes] of
        None \<Rightarrow> Inl http_not_found
      | Some i \<Rightarrow> Inr i)"

lemma first_route_documented: "documented_router first_route"
  by (auto simp: documented_router_def first_route_def dest!: find_Some_in split: option.splits)

definition demo_world :: "unit world" where
  "demo_world =
     \<lparr>w_env = strict_env, w_ops = any_ops Some [] 0, w_fresh = ''a'', w_now = 0, w_micros = 5,
      w_post = (\<lambda>_ _. None), w_verify = (\<lambda>_ _ _. False), w_lib = listed_jwt_lib [], w_conv = (\<lambda>_. 0),
      w_order = (\<lambda>_. []), w_render = (\<lambda>_. [])\<rparr>"

text \<open>Two requests: an encoded character in the path, and an empty id before \<open>proof\<close>.\<close>

definition encoded_request :: http_request where
  "encoded_request =
     \<lparr>http_method = ''GET'', path = ''/api/v1/evidence/a'', raw_path = ''/api/v1/evidence/%61'', authorization = [], body = []\<rparr>"

lemma server_never_panics_witness:
  "(\<exists>s' r. serve demo_world (jwt_read_settings strict_env) (\<lambda>_. None) first_route encoded_request
     (initial_vault, zero_metrics) = (s', Some r) \<and> take 4 (headers r) = security_headers)
   \<and> first_route ''GET'' (route_path encoded_request) = Inr 4
   \<and> (\<exists>s' r. serve demo_world (jwt_read_settings strict_env) (\<lambda>_. None) first_route
       (encoded_request\<lparr>path := ''/api/v1/evidence//proof'', raw_path := []\<rparr>)
     (initial_vault, zero_metrics) = (s', Some r) \<and> take 4 (headers r) = security_headers)
   \<and> first_route ''GET'' ''/api/v1/evidence//proof'' = Inr 5"
proof (intro conjI)
  have safe: "metrics_safe (snd (initial_vault, zero_metrics))" by (simp add: metrics_safe_def zero_metrics_def)
  have "parsed_path encoded_request" by (simp add: parsed_path_def encoded_request_def hex_val_def char_of_eq_iff)
  from server_never_panics [OF first_route_documented this safe]
  show "\<exists>s' r. serve demo_world (jwt_read_settings strict_env) (\<lambda>_. None) first_route encoded_request
     (initial_vault, zero_metrics) = (s', Some r) \<and> take 4 (headers r) = security_headers" by blast
  have "parsed_path (encoded_request\<lparr>path := ''/api/v1/evidence//proof'', raw_path := []\<rparr>)" by (simp add: parsed_path_def)
  from server_never_panics [OF first_route_documented this safe]
  show "\<exists>s' r. serve demo_world (jwt_read_settings strict_env) (\<lambda>_. None) first_route
       (encoded_request\<lparr>path := ''/api/v1/evidence//proof'', raw_path := []\<rparr>)
     (initial_vault, zero_metrics) = (s', Some r) \<and> take 4 (headers r) = security_headers" by blast
  show "first_route ''GET'' (route_path encoded_request) = Inr 4"
    by (simp add: encoded_request_def route_path_def) code_simp
  show "first_route ''GET'' ''/api/v1/evidence//proof'' = Inr 5" by code_simp
qed

text \<open>C19: A request to a protected route (the audit log and every checkpoint endpoint) without a token
  that the middleware accepts is answered 401 and does not touch the vault, whatever the handler
  behind the route would do.\<close>

theorem protected_routes:
  assumes "router (http_method req) (route_path req) = Inr i" "i < length routes"
    and "snd (snd (snd (routes ! i))) \<in> {AuditLog, CheckpointHistory, LatestCheckpoint, VerifyLatest, VerifyBySize}"
    and "jwt_identity (w_lib w) (w_conv w) cfg (loaded i) (w_now w) (authorization req) = None"
  shows "\<exists>m. serve w cfg loaded router req s
      = ((fst s, m), Some \<lparr>status = 401, headers = security_headers, content = []\<rparr>)"
proof -
  obtain meth pat protected e where r: "routes ! i = (meth, pat, protected, e)" by (metis prod_cases4)
  then have "(meth, pat, protected, e) \<in> set routes" using assms(2) nth_mem by metis
  moreover have "e \<in> {AuditLog, CheckpointHistory, LatestCheckpoint, VerifyLatest, VerifyBySize}"
    using assms(3) by (simp add: r)
  ultimately have "protected" by (auto simp: routes_def)
  then have "dispatch w cfg loaded router background req s = (s, Some (bare 401))"
    using assms(1,4) by (simp add: dispatch_def route_handler_def r JWT_def)
  then show ?thesis by (simp add: serve_def SecurityHeaders_def Metrics_def bare_def)
qed

lemma protected_routes_witness:
  "\<exists>m. serve demo_world (jwt_read_settings strict_env) (\<lambda>_. None) (\<lambda>_ _. Inr 6)
     \<lparr>http_method = ''GET'', path = ''/api/v1/audit'', raw_path = [], authorization = ''Bearer x'', body = []\<rparr> (one_leaf, zero_metrics)
      = ((one_leaf, m), Some \<lparr>status = 401, headers = security_headers, content = []\<rparr>)"
  using protected_routes [of "\<lambda>_ _. Inr 6" "\<lparr>http_method = ''GET'', path = ''/api/v1/audit'', raw_path = [], authorization = ''Bearer x'', body = []\<rparr>"
      6 demo_world "jwt_read_settings strict_env" "\<lambda>_. None" "(one_leaf, zero_metrics)"]
  by (simp add: routes_def jwt_identity_def strict_env_eval split: option.split)

text \<open>The evidence routes do not authenticate: whatever \<open>Authorization\<close> header comes with it, an
  ingest is served the same, and the audit entry it leaves names the empty subject.\<close>

lemma ingest_unauthenticated:
  assumes "router (http_method req) (route_path req) = Inr i" "i < length routes" "snd (snd (snd (routes ! i))) = PostEvidence"
    and "decode_ingest (body req) = Some (ct, payload)" "payload \<noteq> []"
  shows "serve w cfg loaded router (req\<lparr>authorization := auth\<rparr>) s = serve w cfg loaded router req s
    \<and> audits (fst (fst (serve w cfg loaded router req s)))
        = audits (fst s) @ [\<lparr>ae_id = w_fresh w, ae_actor = [], ae_time = w_now w\<rparr>]"
proof -
  obtain meth pat protected e where r: "routes ! i = (meth, pat, protected, e)" by (metis prod_cases4)
  then have "(meth, pat, protected, e) \<in> set routes" using assms(2) nth_mem by metis
  moreover have "e = PostEvidence" using assms(3) by (simp add: r)
  ultimately have e: "e = PostEvidence" "\<not> protected" by (auto simp: routes_def)
  have "audits (ingest_store ops j who t v) = audits v" for ops j who t v
    by (simp add: ingest_store_def Let_def split: option.split)
  then show ?thesis
    using assms(1,4,5) e
    by (simp add: serve_def SecurityHeaders_def Metrics_def dispatch_def route_handler_def r lift_vault_def
        Ingest_def Let_def ingest_record_def ingest_reply_def del: metric_ops.simps)
qed

lemma ingest_unauthenticated_witness:
  "audits (fst (fst (serve demo_world (jwt_read_settings strict_env) (\<lambda>_. None) (\<lambda>_ _. Inr 3)
     (demo_request ''/api/v1/evidence'') (initial_vault, zero_metrics)))) = [\<lparr>ae_id = ''a'', ae_actor = [], ae_time = 0\<rparr>]"
proof -
  have "decode_ingest (body (demo_request ''/api/v1/evidence'')) = Some ([], ''A'')"
    by (simp add: demo_request_def decode_demo_body)
  from ingest_unauthenticated [where router = "\<lambda>_ _. Inr 3" and req = "demo_request ''/api/v1/evidence''" and i = 3
      and w = demo_world and cfg = "jwt_read_settings strict_env" and loaded = "\<lambda>_. None"
      and s = "(initial_vault, zero_metrics)", OF refl _ _ this]
  have "audits (fst (fst (serve demo_world (jwt_read_settings strict_env) (\<lambda>_. None) (\<lambda>_ _. Inr 3)
     (demo_request ''/api/v1/evidence'') (initial_vault, zero_metrics))))
      = audits initial_vault @ [\<lparr>ae_id = w_fresh demo_world, ae_actor = [], ae_time = w_now demo_world\<rparr>]"
    by (simp add: routes_def)
  then show ?thesis by (simp add: demo_world_def initial_vault_def)
qed

end
