(* ===== verification/Signer.thy ===== *)
theory Signer
  imports Http
begin

text \<open>
  The signers of \<open>checkpoint-svc/signer/signer.go\<close>: the interface \<open>Signer\<close>, its two
  implementations and their constructors. Ed25519 itself is a parameter (\<open>ed25519\<close>); the key pairs
  it generates are \<open>ed_pair\<close>. The locale \<open>signing_service\<close> is the interface's contract, what the
  \<open>/sign\<close> endpoint relies on.
\<close>

subsection \<open>Ed25519\<close>

record ed25519 =
  ed_sign :: "bytes \<Rightarrow> bytes \<Rightarrow> bytes"
  ed_verify :: "bytes \<Rightarrow> bytes \<Rightarrow> bytes \<Rightarrow> bool"
  ed_pair :: "bytes \<Rightarrow> bytes \<Rightarrow> bool"      \<comment> \<open>a private key and its public key\<close>

definition documented_ed25519 :: "ed25519 \<Rightarrow> bool" where
  "documented_ed25519 ed \<longleftrightarrow>
     (\<forall>priv pub. ed_pair ed priv pub \<longrightarrow>
        length priv = 64 \<and> length pub = 32 \<and> (\<forall>m. ed_verify ed pub m (ed_sign ed priv m)))
     \<and> (\<forall>pub m sig. ed_verify ed pub m sig \<longrightarrow> length sig = 64)"

subsection \<open>Signers\<close>

datatype signer_error =
    CorruptBase64 | InvalidKeySize | MissingKMSKey | UnsupportedProvider string | BackendNotInitialized
  | KeyFileUnreadable

text \<open>A value of the interface: a local key with its reference, or a provider, key id and backend.\<close>

datatype signer =
    LocalSigner (priv_key: bytes) (local_ref: string)
  | KMSSigner (provider: string) (key_id: string) (backend: "signer option")

definition NewLocalSignerFromBase64 :: "string \<Rightarrow> signer_error + signer" where
  "NewLocalSignerFromBase64 b64 =
     (case b64_decode b64 of
        None \<Rightarrow> Inl CorruptBase64
      | Some dec \<Rightarrow>
          if length dec \<noteq> 64 then Inl InvalidKeySize else Inr (LocalSigner dec ''local:file-or-env''))"

definition NewLocalSignerFromBase64WithRef :: "string \<Rightarrow> string \<Rightarrow> signer_error + signer" where
  "NewLocalSignerFromBase64WithRef b64 ref =
     (case NewLocalSignerFromBase64 b64 of
        Inl e \<Rightarrow> Inl e
      | Inr s \<Rightarrow> Inr (if ref \<noteq> [] then LocalSigner (priv_key s) ref else s))"

definition NewKMSSigner :: "env \<Rightarrow> string \<Rightarrow> string \<Rightarrow> signer_error + signer" where
  "NewKMSSigner getenv prov keyid =
     (if prov = ''local-hsm-emulator'' then
        (let b64 = getenv ''KMS_PRIVATE_KEY_B64''
         in if b64 = [] then Inl MissingKMSKey
            else case NewLocalSignerFromBase64WithRef b64 (prov @ '':'' @ keyid) of
                   Inl e \<Rightarrow> Inl e
                 | Inr s \<Rightarrow> Inr (KMSSigner prov keyid (Some s)))
      else Inl (UnsupportedProvider prov))"

text \<open>\<open>ed25519.Sign\<close> panics on a key of the wrong length: no value.\<close>

fun Sign :: "ed25519 \<Rightarrow> signer \<Rightarrow> bytes \<Rightarrow> (signer_error + bytes) option" where
  "Sign ed (LocalSigner priv ref) b = (if length priv \<noteq> 64 then None else Some (Inr (ed_sign ed priv b)))"
| "Sign ed (KMSSigner prov keyid None) b = Some (Inl BackendNotInitialized)"
| "Sign ed (KMSSigner prov keyid (Some s)) b = Sign ed s b"

fun KeyRef :: "signer \<Rightarrow> string" where
  "KeyRef (LocalSigner priv ref) = ref"
| "KeyRef (KMSSigner prov keyid b) = prov @ '':'' @ keyid"

subsection \<open>The contract\<close>

locale signing_service =
  fixes sign :: "'s \<Rightarrow> bytes \<Rightarrow> (signer_error + bytes) option"
    and verify :: "bytes \<Rightarrow> bytes \<Rightarrow> bytes \<Rightarrow> bool"
    and has_public :: "'s \<Rightarrow> bytes \<Rightarrow> bool"
  assumes public_length: "has_public s pub \<Longrightarrow> length pub = 32"
    and sign_total: "has_public s pub \<Longrightarrow> \<exists>sig. sign s m = Some (Inr sig)"
    and sign_verifies: "has_public s pub \<Longrightarrow> sign s m = Some (Inr sig) \<Longrightarrow> verify pub m sig"
    and verify_length: "has_public s pub \<Longrightarrow> verify pub' m sig \<Longrightarrow> length sig = 64"
begin

lemma sign_obtain:
  assumes "has_public s pub"
  obtains sig where "sign s m = Some (Inr sig)" "verify pub m sig" "length sig = 64"
  using assms sign_total sign_verifies verify_length by metis

lemma sign_never_fails: "has_public s pub \<Longrightarrow> sign s m \<noteq> None \<and> sign s m \<noteq> Some (Inl e)"
  using sign_total [of s pub m] by auto

end

text \<open>The public key of a signer, given that Ed25519 behaves as documented.\<close>

fun signer_public :: "ed25519 \<Rightarrow> signer \<Rightarrow> bytes \<Rightarrow> bool" where
  "signer_public ed (LocalSigner priv ref) pub = (documented_ed25519 ed \<and> ed_pair ed priv pub)"
| "signer_public ed (KMSSigner prov keyid None) pub = False"
| "signer_public ed (KMSSigner prov keyid (Some s)) pub = signer_public ed s pub"

lemma signer_public_documented: "signer_public ed s pub \<Longrightarrow> documented_ed25519 ed"
  by (induction ed s pub rule: signer_public.induct) auto

lemma signer_public_sign:
  "signer_public ed s pub \<Longrightarrow>
     length pub = 32 \<and> (\<exists>sig. Sign ed s m = Some (Inr sig) \<and> ed_verify ed pub m sig)"
proof (induction ed s pub rule: signer_public.induct)
  case (1 ed priv ref pub)
  then show ?case by (auto simp: documented_ed25519_def)
qed auto

interpretation sg: signing_service "Sign ed" "ed_verify ed" "signer_public ed" for ed
proof
  fix s pub pub' m sig
  assume pub: "signer_public ed s pub"
  show "length pub = 32" and "\<exists>sig. Sign ed s m = Some (Inr sig)"
    using signer_public_sign [OF pub] by auto
  show "ed_verify ed pub m sig" if "Sign ed s m = Some (Inr sig)"
    using signer_public_sign [OF pub, of m] that by auto
  show "length sig = 64" if "ed_verify ed pub' m sig"
    using signer_public_documented [OF pub] that by (auto simp: documented_ed25519_def)
qed

subsection \<open>What the constructors build\<close>

lemma local_signer_eq:
  "NewLocalSignerFromBase64WithRef b64 ref =
     (case b64_decode b64 of
        None \<Rightarrow> Inl CorruptBase64
      | Some priv \<Rightarrow>
          if length priv \<noteq> 64 then Inl InvalidKeySize
          else Inr (LocalSigner priv (if ref = [] then ''local:file-or-env'' else ref)))"
  by (simp add: NewLocalSignerFromBase64WithRef_def NewLocalSignerFromBase64_def split: option.split)

lemma local_signer_ok:
  "NewLocalSignerFromBase64WithRef b64 ref = Inr s \<longleftrightarrow>
     (\<exists>priv. b64_decode b64 = Some priv \<and> length priv = 64
       \<and> s = LocalSigner priv (if ref = [] then ''local:file-or-env'' else ref))"
  by (auto simp: local_signer_eq split: option.splits)

lemma kms_signer_ok:
  "NewKMSSigner getenv prov keyid = Inr s \<longleftrightarrow>
     prov = ''local-hsm-emulator'' \<and> getenv ''KMS_PRIVATE_KEY_B64'' \<noteq> []
     \<and> (\<exists>priv. b64_decode (getenv ''KMS_PRIVATE_KEY_B64'') = Some priv \<and> length priv = 64
         \<and> s = KMSSigner prov keyid (Some (LocalSigner priv (prov @ '':'' @ keyid))))"
  by (auto simp: NewKMSSigner_def Let_def local_signer_eq split: option.split)

text \<open>C34: A signer that a constructor returned without an error never fails: it signs every message,
  with the Ed25519 key that was given in base64, and its key reference is the reference asked for
  (\<open>provider:key\<close> behind a KMS).\<close>

theorem signer_total:
  assumes "NewLocalSignerFromBase64WithRef b64 ref = Inr s \<and> src = b64 \<and> shown = (if ref = [] then ''local:file-or-env'' else ref)
    \<or> NewKMSSigner getenv prov keyid = Inr s \<and> src = getenv ''KMS_PRIVATE_KEY_B64'' \<and> shown = prov @ '':'' @ keyid"
  shows "\<exists>priv. b64_decode src = Some priv \<and> length priv = 64
    \<and> (\<forall>m. Sign ed s m = Some (Inr (ed_sign ed priv m))) \<and> KeyRef s = shown"
  using assms by (auto simp: local_signer_ok kms_signer_ok)

definition demo_private :: bytes where
  "demo_private = replicate 64 (CHR ''k'')"

lemma demo_private_key: "length demo_private = 64"
  by (simp add: demo_private_def)

lemma signer_total_witness:
  "\<exists>s. NewLocalSignerFromBase64WithRef (b64_encode demo_private) ''r'' = Inr s \<and> KeyRef s = ''r''"
proof -
  have "NewLocalSignerFromBase64WithRef (b64_encode demo_private) ''r'' = Inr (LocalSigner demo_private ''r'')"
    by (simp add: local_signer_ok demo_private_key)
  with signer_total [of "b64_encode demo_private" "''r''" "LocalSigner demo_private ''r''" "b64_encode demo_private" "''r''"]
  show ?thesis by auto
qed

end
