(* ===== verification/CheckpointSvc.thy ===== *)
theory CheckpointSvc
  imports "HOL-Library.Word" Signer
begin

text \<open>
  The signing service: \<open>checkpoint-svc/cmd/checkpoint/main.go\<close> and \<open>checkpoint-svc/metrics\<close>. The
  process chooses one signer at start; without one it listens on no address at all. The periodic
  loop only logs, so only its interval is modelled. \<open>readfile\<close> is the file system, \<open>read\<close> the
  reading of a request body, which may fail.
\<close>

subsection \<open>Start\<close>

definition select_signer :: "env \<Rightarrow> (string \<Rightarrow> string option) \<Rightarrow> string \<Rightarrow> signer_error + signer" where
  "select_signer getenv readfile keyPath =
     (let kmsProvider = getenv ''KMS_PROVIDER''; kmsKeyID = getenv ''KMS_KEY_ID'';
          keyB64 = getenv ''CHECKPOINT_PRIVATE_KEY_B64''
      in if kmsProvider \<noteq> [] \<and> kmsKeyID \<noteq> [] then NewKMSSigner getenv kmsProvider kmsKeyID
         else if keyB64 \<noteq> [] then
           NewLocalSignerFromBase64WithRef keyB64 ''local:env:CHECKPOINT_PRIVATE_KEY_B64''
         else case readfile keyPath of
                None \<Rightarrow> Inl KeyFileUnreadable
              | Some b \<Rightarrow> NewLocalSignerFromBase64WithRef b (''local:file:'' @ keyPath))"

definition checkpoint_interval :: "env \<Rightarrow> int" where
  "checkpoint_interval getenv = (if getenv ''CHECKPOINT_INTERVAL_SECONDS'' \<noteq> [] then 60 else 300)"

subsection \<open>Counters\<close>

record sign_metrics =
  signRequestsTotal :: "64 word"
  signFailuresTotal :: "64 word"
  lastSignSuccessUnix :: int

definition initial_metrics :: sign_metrics where
  "initial_metrics = \<lparr>signRequestsTotal = 0, signFailuresTotal = 0, lastSignSuccessUnix = 0\<rparr>"

definition IncSignRequests :: "sign_metrics \<Rightarrow> sign_metrics" where
  "IncSignRequests m = m\<lparr>signRequestsTotal := signRequestsTotal m + 1\<rparr>"

definition IncSignFailures :: "sign_metrics \<Rightarrow> sign_metrics" where
  "IncSignFailures m = m\<lparr>signFailuresTotal := signFailuresTotal m + 1\<rparr>"

definition RecordSignSuccess :: "int \<Rightarrow> sign_metrics \<Rightarrow> sign_metrics" where
  "RecordSignSuccess now m = m\<lparr>lastSignSuccessUnix := now\<rparr>"

definition nl :: string where "nl = [CHR 0x0A]"

definition sign_metrics_text :: "sign_metrics \<Rightarrow> string" where
  "sign_metrics_text m =
     ''# HELP checkpoint_svc_sign_requests_total Total number of /sign requests.'' @ nl
     @ ''# TYPE checkpoint_svc_sign_requests_total counter'' @ nl
     @ ''checkpoint_svc_sign_requests_total '' @ nat_digits (unat (signRequestsTotal m)) @ nl
     @ ''# HELP checkpoint_svc_sign_failures_total Total number of failed /sign requests.'' @ nl
     @ ''# TYPE checkpoint_svc_sign_failures_total counter'' @ nl
     @ ''checkpoint_svc_sign_failures_total '' @ nat_digits (unat (signFailuresTotal m)) @ nl
     @ ''# HELP checkpoint_svc_last_sign_success_unixtime Unix timestamp of the latest successful sign operation.'' @ nl
     @ ''# TYPE checkpoint_svc_last_sign_success_unixtime gauge'' @ nl
     @ ''checkpoint_svc_last_sign_success_unixtime '' @ FormatInt (lastSignSuccessUnix m) @ nl"

definition sign_metrics_handler :: "sign_metrics handler" where
  "sign_metrics_handler ctx req m =
     (m, Some \<lparr>status = 200, headers = [(''Content-Type'', ''text/plain; version=0.0.4'')],
               content = sign_metrics_text m\<rparr>)"

subsection \<open>The signing endpoint\<close>

definition sign_reply :: "bytes \<Rightarrow> signer \<Rightarrow> http_response" where
  "sign_reply sig s =
     \<lparr>status = 200, headers = json_type @ [(''X-Checkpoint-Key-Ref'', KeyRef s)],
      content = json_encode_line (jmap [(''signature'', JStr (b64_encode sig)), (''key_ref'', JStr (KeyRef s))])\<rparr>"

definition sign_handler ::
  "ed25519 \<Rightarrow> signer \<Rightarrow> (http_request \<Rightarrow> bytes option) \<Rightarrow> int \<Rightarrow> sign_metrics handler" where
  "sign_handler ed s read now ctx req m0 =
     (let m = IncSignRequests m0
      in if http_method req \<noteq> ''POST'' then (m, Some (bare 405))
         else case read req of
           None \<Rightarrow> (m, Some (bare 400))
         | Some b \<Rightarrow>
             (case Sign ed s b of
                None \<Rightarrow> (m, None)
              | Some (Inl e) \<Rightarrow> (IncSignFailures m, Some (bare 500))
              | Some (Inr sig) \<Rightarrow> (RecordSignSuccess now m, Some (sign_reply sig s))))"

text \<open>The process: what it answers under a path in canonical form (the default multiplexer redirects any
  other), or nothing when it does not listen.\<close>

definition checkpoint_serve ::
  "ed25519 \<Rightarrow> (signer_error + signer) \<Rightarrow> (http_request \<Rightarrow> bytes option) \<Rightarrow> int \<Rightarrow> sign_metrics handler option" where
  "checkpoint_serve ed chosen read now =
     (case chosen of
        Inl _ \<Rightarrow> None
      | Inr s \<Rightarrow>
          Some (\<lambda>ctx req m.
            if path req = ''/metrics'' then sign_metrics_handler ctx req m
            else if path req = ''/sign'' then sign_handler ed s read now ctx req m
            else (m, Some http_not_found)))"

subsection \<open>Properties\<close>

lemma select_signer_cases:
  assumes "select_signer getenv readfile keyPath = Inr s"
  obtains priv where "length priv = 64" "\<And>m. Sign ed s m = Some (Inr (ed_sign ed priv m))"
  using assms
  by (auto simp: select_signer_def Let_def local_signer_ok kms_signer_ok split: if_splits option.splits)

text \<open>The specification of the choice: the sources of a key in the order of their precedence. Each is
  configured or not, and has the base64 text of a key (an unknown KMS provider and an unreadable
  file have none) and the reference that its signatures carry.\<close>

definition key_sources :: "env \<Rightarrow> (string \<Rightarrow> string option) \<Rightarrow> string \<Rightarrow> (bool \<times> string option \<times> string) list" where
  "key_sources getenv readfile keyPath =
     [(getenv ''KMS_PROVIDER'' \<noteq> [] \<and> getenv ''KMS_KEY_ID'' \<noteq> [],
       if getenv ''KMS_PROVIDER'' = ''local-hsm-emulator'' then Some (getenv ''KMS_PRIVATE_KEY_B64'') else None,
       getenv ''KMS_PROVIDER'' @ '':'' @ getenv ''KMS_KEY_ID''),
      (getenv ''CHECKPOINT_PRIVATE_KEY_B64'' \<noteq> [],
       Some (getenv ''CHECKPOINT_PRIVATE_KEY_B64''), ''local:env:CHECKPOINT_PRIVATE_KEY_B64''),
      (True, readfile keyPath, ''local:file:'' @ keyPath)]"

definition source_key :: "string option \<Rightarrow> bytes option" where
  "source_key src =
     (case Option.bind src b64_decode of None \<Rightarrow> None | Some priv \<Rightarrow> if length priv = 64 then Some priv else None)"

lemma source_key_ok: "source_key src = Some priv \<longleftrightarrow> Option.bind src b64_decode = Some priv \<and> length priv = 64"
  by (auto simp: source_key_def split: option.splits)

lemma select_signer_source:
  assumes "List.find fst (key_sources getenv readfile keyPath) = Some (c, src, ref)"
  shows "case source_key src of
      None \<Rightarrow> (\<exists>e. select_signer getenv readfile keyPath = Inl e)
    | Some priv \<Rightarrow> (\<exists>s. select_signer getenv readfile keyPath = Inr s \<and> KeyRef s = ref
        \<and> (\<forall>ed m. Sign ed s m = Some (Inr (ed_sign ed priv m))))"
proof (cases "getenv ''KMS_PROVIDER'' \<noteq> [] \<and> getenv ''KMS_KEY_ID'' \<noteq> []")
  case True
  then have find: "src = (if getenv ''KMS_PROVIDER'' = ''local-hsm-emulator'' then Some (getenv ''KMS_PRIVATE_KEY_B64'') else None)"
    "ref = getenv ''KMS_PROVIDER'' @ '':'' @ getenv ''KMS_KEY_ID''"
    using assms by (simp_all add: key_sources_def)
  have "b64_decode [] = Some []" by code_simp
  then show ?thesis
    using True unfolding find select_signer_def NewKMSSigner_def local_signer_eq source_key_def Let_def
    by (cases "getenv ''KMS_PROVIDER'' = ''local-hsm-emulator''"; cases "getenv ''KMS_PRIVATE_KEY_B64'' = []")
      (auto split: option.split)
next
  case no_kms: False
  show ?thesis
  proof (cases "getenv ''CHECKPOINT_PRIVATE_KEY_B64'' = []")
    case True
    with assms no_kms show ?thesis
      by (auto simp: key_sources_def select_signer_def local_signer_eq source_key_def split: option.split)
  next
    case False
    with assms no_kms show ?thesis
      by (auto simp: key_sources_def select_signer_def local_signer_eq source_key_def Let_def split: option.split)
  qed
qed

text \<open>C35: The sources of the key have a fixed precedence, the key management service before the
  environment before the file, and the first one that is configured decides alone. If it gives a key
  of 64 bytes, the service listens and answers a POST to \<open>/sign\<close> with the signature under exactly
  that key and with its reference, whatever keys the later sources hold. If it does not, there is no
  signer and the service does not listen, whatever keys the later sources hold.\<close>

theorem signer_precedence:
  assumes "List.find fst (key_sources getenv readfile keyPath) = Some (c, src, ref)"
  shows "case source_key src of
      Some priv \<Rightarrow>
        (\<exists>h. checkpoint_serve ed (select_signer getenv readfile keyPath) read now = Some h
          \<and> (\<forall>ctx req m b. http_method req = ''POST'' \<and> path req = ''/sign'' \<and> read req = Some b \<longrightarrow>
               h ctx req m = (RecordSignSuccess now (IncSignRequests m),
                 Some \<lparr>status = 200, headers = json_type @ [(''X-Checkpoint-Key-Ref'', ref)],
                       content = json_encode_line (jmap [(''signature'', JStr (b64_encode (ed_sign ed priv b))), (''key_ref'', JStr ref)])\<rparr>)))
    | None \<Rightarrow> checkpoint_serve ed (select_signer getenv readfile keyPath) read now = None"
proof (cases "source_key src")
  case None
  with select_signer_source [OF assms] show ?thesis by (auto simp: checkpoint_serve_def)
next
  case (Some priv)
  with select_signer_source [OF assms] obtain s where s: "select_signer getenv readfile keyPath = Inr s" "KeyRef s = ref"
    and sign: "\<And>m. Sign ed s m = Some (Inr (ed_sign ed priv m))" by auto
  with Some show ?thesis
    by (simp add: checkpoint_serve_def sign_handler_def sign_reply_def Let_def)
qed

text \<open>An unknown provider, with a good key in the environment and in the file: not used. With the
  emulator, the key in the environment does not replace the one of the service.\<close>

definition bad_kms_env :: env where
  "bad_kms_env name =
     (if name = ''KMS_PROVIDER'' then ''aws'' else if name = ''KMS_KEY_ID'' then ''k''
      else if name = ''CHECKPOINT_PRIVATE_KEY_B64'' then b64_encode demo_private else [])"

definition kms_env :: env where
  "kms_env =
     bad_kms_env(''KMS_PROVIDER'' := ''local-hsm-emulator'', ''KMS_PRIVATE_KEY_B64'' := b64_encode (replicate 64 (CHR ''h'')))"

lemma signer_precedence_witness:
  "(\<forall>ed read now. checkpoint_serve ed (select_signer bad_kms_env (\<lambda>_. Some (b64_encode demo_private)) ''f'') read now = None)
   \<and> (\<forall>ed. \<exists>h. checkpoint_serve ed (select_signer kms_env (\<lambda>_. Some (b64_encode demo_private)) ''f'') (\<lambda>r. Some (body r)) 0 = Some h
        \<and> snd (h background \<lparr>http_method = ''POST'', path = ''/sign'', raw_path = [], authorization = [], body = ''m''\<rparr> initial_metrics)
          = Some \<lparr>status = 200, headers = json_type @ [(''X-Checkpoint-Key-Ref'', ''local-hsm-emulator:k'')],
                 content = json_encode_line (jmap [(''signature'', JStr (b64_encode (ed_sign ed (replicate 64 (CHR ''h'')) ''m''))),
                   (''key_ref'', JStr ''local-hsm-emulator:k'')])\<rparr>)"
proof (intro conjI allI)
  let ?file = "\<lambda>_ :: string. Some (b64_encode demo_private)"
  have bad: "List.find fst (key_sources bad_kms_env ?file ''f'') = Some (True, None, ''aws:k'')"
    by (simp add: key_sources_def bad_kms_env_def)
  show "checkpoint_serve ed (select_signer bad_kms_env ?file ''f'') read now = None" for ed read now
    using signer_precedence [OF bad, of ed read now] by (simp add: source_key_def)
  have good: "List.find fst (key_sources kms_env ?file ''f'')
      = Some (True, Some (b64_encode (replicate 64 (CHR ''h''))), ''local-hsm-emulator:k'')"
    by (simp add: key_sources_def kms_env_def bad_kms_env_def)
  have "source_key (Some (b64_encode (replicate 64 (CHR ''h'')))) = Some (replicate 64 (CHR ''h''))"
    by (simp only: source_key_ok bind.bind_lunit b64_roundtrip length_replicate)
  with signer_precedence [OF good, of _ "\<lambda>r. Some (body r)" 0] initial_metrics_def
  show "\<exists>h. checkpoint_serve ed (select_signer kms_env ?file ''f'') (\<lambda>r. Some (body r)) 0 = Some h
        \<and> snd (h background \<lparr>http_method = ''POST'', path = ''/sign'', raw_path = [], authorization = [], body = ''m''\<rparr> initial_metrics)
          = Some \<lparr>status = 200, headers = json_type @ [(''X-Checkpoint-Key-Ref'', ''local-hsm-emulator:k'')],
                 content = json_encode_line (jmap [(''signature'', JStr (b64_encode (ed_sign ed (replicate 64 (CHR ''h'')) ''m''))),
                   (''key_ref'', JStr ''local-hsm-emulator:k'')])\<rparr>" for ed
    by fastforce
qed

text \<open>C33: A service that listens never panics and never counts a failure: it answers every readable
  POST with a signature of exactly the bytes sent, refuses other methods with 405, and counts each
  request once, modulo 2 to the 64.\<close>

theorem sign_endpoint_total:
  assumes "select_signer getenv readfile keyPath = Inr s"
  shows "\<exists>priv. length priv = 64 \<and>
    sign_handler ed s read now ctx req m =
      (if http_method req = ''POST''
       then case read req of
              None \<Rightarrow> (IncSignRequests m, Some (bare 400))
            | Some b \<Rightarrow> (RecordSignSuccess now (IncSignRequests m), Some (sign_reply (ed_sign ed priv b) s))
       else (IncSignRequests m, Some (bare 405)))
    \<and> (\<forall>reqs. signFailuresTotal (fold (\<lambda>r m. fst (sign_handler ed s read now ctx r m)) reqs m) = signFailuresTotal m
        \<and> signRequestsTotal (fold (\<lambda>r m. fst (sign_handler ed s read now ctx r m)) reqs m)
            = signRequestsTotal m + of_nat (length reqs))"
proof -
  obtain priv where priv: "length priv = 64" and sign: "\<And>m. Sign ed s m = Some (Inr (ed_sign ed priv m))"
    using select_signer_cases [OF assms] by metis
  have step: "sign_handler ed s read now ctx r k =
      (if http_method r = ''POST''
       then case read r of
              None \<Rightarrow> (IncSignRequests k, Some (bare 400))
            | Some b \<Rightarrow> (RecordSignSuccess now (IncSignRequests k), Some (sign_reply (ed_sign ed priv b) s))
       else (IncSignRequests k, Some (bare 405)))" for r k
    by (simp add: sign_handler_def Let_def sign split: option.split)
  have "signFailuresTotal (fold (\<lambda>r m. fst (sign_handler ed s read now ctx r m)) reqs k) = signFailuresTotal k
        \<and> signRequestsTotal (fold (\<lambda>r m. fst (sign_handler ed s read now ctx r m)) reqs k)
            = signRequestsTotal k + of_nat (length reqs)" for reqs k
    by (induction reqs arbitrary: k)
      (auto simp: step IncSignRequests_def RecordSignSuccess_def split: option.split)
  with priv step show ?thesis by blast
qed

lemma sign_endpoint_total_witness:
  "\<forall>ed reqs. signFailuresTotal (fold (\<lambda>r m. fst (sign_handler ed (LocalSigner demo_private ''local:file:f'')
       (\<lambda>r. Some (body r)) 0 background r m)) reqs initial_metrics) = 0"
proof (intro allI)
  fix ed reqs
  have "select_signer (\<lambda>_. []) (\<lambda>_. Some (b64_encode demo_private)) ''f'' = Inr (LocalSigner demo_private ''local:file:f'')"
    by (simp add: select_signer_def local_signer_eq demo_private_key)
  from sign_endpoint_total [OF this, of ed "\<lambda>r. Some (body r)" 0 background
      "\<lparr>http_method = [], path = [], raw_path = [], authorization = [], body = []\<rparr>" initial_metrics]
  have "signFailuresTotal (fold (\<lambda>r m. fst (sign_handler ed (LocalSigner demo_private ''local:file:f'')
       (\<lambda>r. Some (body r)) 0 background r m)) reqs initial_metrics) = signFailuresTotal initial_metrics"
    by blast
  then show "signFailuresTotal (fold (\<lambda>r m. fst (sign_handler ed (LocalSigner demo_private ''local:file:f'')
       (\<lambda>r. Some (body r)) 0 background r m)) reqs initial_metrics) = 0"
    by (simp add: initial_metrics_def)
qed

end
