(* ===== verification/EndToEnd.thy ===== *)
theory EndToEnd
  imports VaultApi CheckpointSvc
begin

text \<open>
  The two services together: the vault posts a checkpoint payload to the \<open>/sign\<close> endpoint of the
  checkpoint service, stores what comes back, and later verifies it against a configured public
  key. Everything between the two services is text: the JSON of the payload, base64, and the JSON
  of the answer.
\<close>

text \<open>A POST from the vault, as the checkpoint service answers it.\<close>

definition signing_post :: "ed25519 \<Rightarrow> signer \<Rightarrow> string \<Rightarrow> string \<Rightarrow> (int \<times> string) option" where
  "signing_post ed s url b =
     (case snd (sign_handler ed s (\<lambda>r. Some (body r)) 0 background
                  \<lparr>http_method = ''POST'', path = ''/sign'', raw_path = [], authorization = [], body = b\<rparr> initial_metrics) of
        None \<Rightarrow> None
      | Some r \<Rightarrow> Some (status r, content r))"

lemma b64_encode_utf8 [simp]: "valid_utf8 (b64_encode bs)"
  by (intro valid_utf8_ascii ballI) (auto dest!: b64_encode_plain simp: plain_def)

lemma signing_post_answer:
  assumes "signer_public ed s pub" "valid_utf8 (KeyRef s)"
  obtains sig where "ed_verify ed pub b sig"
    "signing_post ed s url b = Some (200, json_encode_line (jmap [(''signature'', JStr (b64_encode sig)), (''key_ref'', JStr (KeyRef s))]))"
    "Option.bind (json_decode_first (json_encode_line (jmap [(''signature'', JStr (b64_encode sig)), (''key_ref'', JStr (KeyRef s))])))
       into_string_map = Some [(''key_ref'', KeyRef s), (''signature'', b64_encode sig)]"
proof -
  obtain sig where sig: "Sign ed s b = Some (Inr sig)" "ed_verify ed pub b sig"
    using sg.sign_obtain [OF assms(1)] by metis
  let ?v = "JObj [(''key_ref'', JStr (KeyRef s)), (''signature'', JStr (b64_encode sig))]"
  have v: "jmap [(''signature'', JStr (b64_encode sig)), (''key_ref'', JStr (KeyRef s))] = ?v"
    by (simp add: jmap_def less_list_code)
  have "json_decode_first (json_print ?v @ [CHR 0x0A]) = Some ?v"
    using assms(2) by (intro json_roundtrip_first) (simp_all add: valid_utf8_ascii max_depth_def ends_number_def is_digit_def)
  then have "Option.bind (json_decode_first (json_encode_line ?v)) into_string_map
      = Some [(''key_ref'', KeyRef s), (''signature'', b64_encode sig)]"
    by (simp add: json_encode_line_def into_string_map_def into_struct_def)
  moreover have "signing_post ed s url b = Some (200, json_encode_line ?v)"
    using sig(1) v by (simp add: signing_post_def sign_handler_def sign_reply_def Let_def)
  ultimately show thesis using that sig(2) v by simp
qed

text \<open>C36: The bytes that are signed determine the tree size and the root: no other pair has the same bytes.\<close>

theorem payload_bytes_inj:
  assumes "payload_bytes n r = payload_bytes n' r'" "in_int64 n" "in_int64 n'" "valid_utf8 r" "valid_utf8 r'"
  shows "n = n' \<and> r = r'"
proof -
  have parse: "json_parse (payload_bytes k q) = Some (payload_json \<lparr>pl_tree_size = k, pl_root_hash = q\<rparr>)"
    if "valid_utf8 q" for k q
    unfolding payload_bytes_def
    by (rule json_roundtrip) (use that in \<open>simp_all add: payload_json_def jint_def valid_utf8_ascii max_depth_def\<close>)
  have "payload_json \<lparr>pl_tree_size = n, pl_root_hash = r\<rparr> = payload_json \<lparr>pl_tree_size = n', pl_root_hash = r'\<rparr>"
    using assms(1) parse [OF assms(4), of n] parse [OF assms(5), of n'] by simp
  then show ?thesis using assms(2,3) by (simp add: payload_json_def jint_def FormatInt_inj)
qed

definition verdict_true :: "int \<Rightarrow> string \<Rightarrow> string \<Rightarrow> http_response" where
  "verdict_true n sig ref =
     reply_json 200 (jmap [(''verified'', JBool True), (''tree_size'', jint n), (''root_hash'', JStr zero_root),
       (''signature'', JStr sig), (''key_ref'', JStr ref)])"

definition size_request :: "int \<Rightarrow> http_request" where
  "size_request n = \<lparr>http_method = ''GET'', path = checkpoints_prefix @ FormatInt n @ ''/verify'', raw_path = [], authorization = [], body = []\<rparr>"

lemma size_request_parse:
  assumes "0 < n" "in_int64 n"
  shows "ParseInt64 (Trim1 (TrimSuffix (TrimPrefix (path (size_request n)) checkpoints_prefix) ''/verify'') (CHR ''/'')) = Some n"
    and "HasPrefix (path (size_request n)) checkpoints_prefix" "HasSuffix (path (size_request n)) ''/verify''"
proof -
  have digits: "c \<noteq> CHR ''/''" if "c \<in> set (FormatInt n)" for c
    using that assms(1) set_nat_digits [of "nat n"] by (auto simp: FormatInt_def is_digit_def)
  then have "dropWhile (\<lambda>x. x = CHR ''/'') xs = xs" if "set xs \<subseteq> set (FormatInt n)" for xs
    using that by (cases xs) auto
  then have "Trim1 (FormatInt n) (CHR ''/'') = FormatInt n" by (simp add: Trim1_def)
  then show "ParseInt64 (Trim1 (TrimSuffix (TrimPrefix (path (size_request n)) checkpoints_prefix) ''/verify'') (CHR ''/'')) = Some n"
    using assms by (simp add: size_request_def ParseInt64_FormatInt)
  show "HasPrefix (path (size_request n)) checkpoints_prefix" by (simp add: size_request_def)
  have "HasSuffix ((checkpoints_prefix @ FormatInt n) @ ''/verify'') ''/verify''" by (rule HasSuffix_append)
  then show "HasSuffix (path (size_request n)) ''/verify''" by (simp only: size_request_def http_request.select_convs append_assoc)
qed

text \<open>What a request for a tree size answers depends on the checkpoint of that size alone; a vault whose
  requests run one after another keeps it.\<close>

lemma verify_by_size_published:
  assumes "hasCheckpointAccess ctx" "0 < n" "in_int64 n" "published n w = Some cp"
    "verifyCheckpointResponse getenv verify cp = verdict"
  shows "VerifyCheckpointByTreeSize getenv verify ctx (size_request n) w = (w, Some verdict)"
  using assms size_request_parse [OF assms(2,3)] by (simp add: VerifyCheckpointByTreeSize_def)

lemma published_kept:
  assumes "seq_inv v" "events_ok ops fs v" "published n v = Some cp"
  shows "published n (vault_events ops fs v) = Some cp"
  using seq_run [OF assms(1,2)] assms(3) by (auto simp: published_def map_le_def dom_def)

text \<open>C5: With a signer that holds the private key of the configured public key, the first request to
  verify the latest checkpoint of a vault with leaves is answered with a positive verdict over the
  tree size and root, in a state \<open>v'\<close>. Any later state gives the same verdict, with the same
  signature and key reference, to a request to verify that tree size, as long as the published
  checkpoint of that size is the one of \<open>v'\<close>. When requests and committer rounds run one after another
  it always is. (Overlapping checkpoint requests can replace it, \<open>checkpoint_races\<close>.)\<close>

theorem signed_checkpoint_verifies:
  assumes "signer_public ed s pub" "valid_utf8 (KeyRef s)"
    and env: "getenv ''CHECKPOINT_SIGNING_URL'' \<noteq> []"
      "getenv ''CHECKPOINT_VERIFY_PUBLIC_KEY_B64'' = b64_encode pub"
    and vault: "vault_inv v" "0 < next_index v" "published (next_index v) v = None"
    and access: "hasCheckpointAccess ctx" "hasCheckpointAccess ctx'"
  shows "\<exists>v' sig ref.
    VerifyLatestCheckpoint getenv (signing_post ed s) (ed_verify ed) ctx req v
      = (v', Some (verdict_true (next_index v) (b64_encode sig) ref))
    \<and> ed_verify ed pub (payload_bytes (next_index v) zero_root) sig
    \<and> VerifyCheckpointByTreeSize getenv (ed_verify ed) ctx' (size_request (next_index v)) v'
      = (v', Some (verdict_true (next_index v) (b64_encode sig) ref))
    \<and> (\<forall>w. published (next_index v) w = published (next_index v) v' \<longrightarrow>
         VerifyCheckpointByTreeSize getenv (ed_verify ed) ctx' (size_request (next_index v)) w
           = (w, Some (verdict_true (next_index v) (b64_encode sig) ref)))
    \<and> (\<forall>ops fs. seq_inv v \<longrightarrow> events_ok ops fs v' \<longrightarrow>
         VerifyCheckpointByTreeSize getenv (ed_verify ed) ctx' (size_request (next_index v)) (vault_events ops fs v')
           = (vault_events ops fs v', Some (verdict_true (next_index v) (b64_encode sig) ref)))"
proof -
  let ?n = "next_index v" and ?cp = "sign_checkpoint getenv (signing_post ed s) (next_index v)"
  obtain sig where sig: "ed_verify ed pub (payload_bytes ?n zero_root) sig"
    and post: "signing_post ed s (getenv ''CHECKPOINT_SIGNING_URL'') (payload_bytes ?n zero_root)
      = Some (200, json_encode_line (jmap [(''signature'', JStr (b64_encode sig)), (''key_ref'', JStr (KeyRef s))]))"
    and got: "Option.bind (json_decode_first (json_encode_line (jmap [(''signature'', JStr (b64_encode sig)), (''key_ref'', JStr (KeyRef s))])))
       into_string_map = Some [(''key_ref'', KeyRef s), (''signature'', b64_encode sig)]"
    using signing_post_answer [OF assms(1,2)] by metis
  have len: "length sig = 64" "length pub = 32"
    using sg.verify_length [OF assms(1) sig] sg.public_length [OF assms(1)] by simp_all
  then have ne: "sig \<noteq> []" "pub \<noteq> []" by auto
  have cp: "cp_signature ?cp = b64_encode sig"
    using env(1) ne by (simp add: sign_checkpoint_def Let_def post got nonempty_or_def)
  have verdict: "verifyCheckpointResponse getenv (ed_verify ed) ?cp = verdict_true ?n (b64_encode sig) (cp_key_ref ?cp)"
    using env(2) len ne cp sig by (simp add: verifyCheckpointResponse_def verdict_true_def Let_def)
  have "current_tree_size v = ?n" using vault(1) current_tree_size_next by (simp add: vault_inv_def)
  then have build: "buildLatestCheckpoint getenv (signing_post ed s) ctx v = (publish ?cp v, Inr ?cp)"
    using vault access by (simp add: buildLatestCheckpoint_def Let_def)
  then have first: "VerifyLatestCheckpoint getenv (signing_post ed s) (ed_verify ed) ctx req v
      = (publish ?cp v, Some (verdict_true ?n (b64_encode sig) (cp_key_ref ?cp)))"
    using verdict by (simp add: VerifyLatestCheckpoint_def)
  have int: "in_int64 ?n" using vault by (intro in_int64_small) (simp_all add: vault_inv_def)
  have pub: "published ?n (publish ?cp v) = Some ?cp" by (simp add: published_def publish_def Let_def)
  note later = verify_by_size_published [OF access(2) vault(2) int _ verdict]
  have "published ?n (vault_events ops fs (publish ?cp v)) = Some ?cp"
    if "seq_inv v" "events_ok ops fs (publish ?cp v)" for ops fs
    using seq_step [OF that(1), of "ECheckpoint getenv (signing_post ed s) ctx" ops] that(2) pub build
    by (intro published_kept) simp_all
  then show ?thesis using first sig later pub by (intro exI conjI) (assumption | simp)+
qed

text \<open>An instance of the scheme: it satisfies what is documented, without any security.\<close>

definition plain_ed25519 :: ed25519 where
  "plain_ed25519 =
     \<lparr>ed_sign = (\<lambda>priv m. take 32 priv @ replicate 32 (CHR ''s'')),
      ed_verify = (\<lambda>pub m sig. length sig = 64 \<and> take 32 sig = pub),
      ed_pair = (\<lambda>priv pub. length priv = 64 \<and> pub = take 32 priv)\<rparr>"

lemma plain_ed25519_documented: "documented_ed25519 plain_ed25519"
  by (simp add: documented_ed25519_def plain_ed25519_def)

definition signing_env :: env where
  "signing_env = env_of [(''CHECKPOINT_SIGNING_URL'', ''http://c/sign''),
                         (''CHECKPOINT_VERIFY_PUBLIC_KEY_B64'', b64_encode (take 32 demo_private))]"

lemma signed_checkpoint_verifies_witness:
  "\<exists>v' sig ref.
    VerifyLatestCheckpoint signing_env (signing_post plain_ed25519 (LocalSigner demo_private ''r'')) (ed_verify plain_ed25519)
       auditor_ctx (demo_request []) one_leaf
      = (v', Some (verdict_true 1 (b64_encode sig) ref))
    \<and> snd (VerifyCheckpointByTreeSize signing_env (ed_verify plain_ed25519) auditor_ctx (size_request 1)
        (vault_events (any_ops Some [] 0) [ECheckpoint (\<lambda>_. []) (\<lambda>_ _. None) auditor_ctx] v'))
      = Some (verdict_true 1 (b64_encode sig) ref)"
proof -
  have pub: "signer_public plain_ed25519 (LocalSigner demo_private ''r'') (take 32 demo_private)"
    using plain_ed25519_documented by (simp add: plain_ed25519_def demo_private_key)
  have ref: "valid_utf8 (KeyRef (LocalSigner demo_private ''r''))" by (simp add: valid_utf8_ascii)
  have env: "signing_env ''CHECKPOINT_SIGNING_URL'' \<noteq> []"
    "signing_env ''CHECKPOINT_VERIFY_PUBLIC_KEY_B64'' = b64_encode (take 32 demo_private)"
    by (simp_all add: signing_env_def env_of_def)
  have n: "next_index one_leaf = 1" by (simp add: one_leaf_eval)
  have "0 < next_index one_leaf" "published (next_index one_leaf) one_leaf = None" "hasCheckpointAccess auditor_ctx"
    by (simp_all add: one_leaf_eval published_def)
  note fact = signed_checkpoint_verifies [OF pub ref env one_leaf_inv this(1,2,3,3), of "demo_request []", unfolded n]
  have seq: "seq_inv one_leaf" using one_leaf_inv by (simp add: seq_inv_def one_leaf_eval)
  have "events_ok ops [ECheckpoint getenv post ctx] w" for ops getenv post ctx w by simp
  with fact seq show ?thesis by (metis snd_conv)
qed

lemma payload_bytes_inj_witness: "payload_bytes 1 zero_root \<noteq> payload_bytes 2 zero_root"
  using payload_bytes_inj [of 1 zero_root 2 zero_root]
  by (auto simp: zero_root_replicate valid_utf8_ascii in_int64_def max_int64_def min_int64_def)

end
