(* ===== verification/PgRace.thy ===== *)
theory PgRace
  imports Store
begin

text \<open>
  Several processes that run \<open>pgStore.AssignNextPendingLeaf\<close> against one database (the
  deployment manifest asks for three replicas), at the granularity at which Postgres runs the
  transaction under READ COMMITTED: the first select picks and locks a pending row that nobody
  else holds, the second reads the largest committed index, update and commit publish the row.
  The relation \<open>pg_step\<close> has one rule per step; other clients may insert rows at any time, and a
  transaction may be rolled back at any time. Shown: no interleaving ever changes an index that
  was given; with at most one open transaction the indices stay distinct; with two they need not.
\<close>

datatype txn = Idle | Picked string | Computed string int

record race =
  rows :: "pg_row list"
  txns :: "nat \<Rightarrow> txn"

fun holds :: "txn \<Rightarrow> string \<Rightarrow> bool" where
  "holds Idle u = False"
| "holds (Picked v) u = (v = u)"
| "holds (Computed v n) u = (v = u)"

definition free_row :: "race \<Rightarrow> pg_row \<Rightarrow> bool" where
  "free_row s r \<longleftrightarrow> row_leaf r = None \<and> (\<forall>i. \<not> holds (txns s i) (row_id r))"

inductive pg_step :: "race \<Rightarrow> race \<Rightarrow> bool" where
  pick: "txns s i = Idle \<Longrightarrow> rows s = before @ r # after \<Longrightarrow> free_row s r \<Longrightarrow>
     (\<forall>q \<in> set before. \<not> free_row s q) \<Longrightarrow>
     pg_step s (s\<lparr>txns := (txns s)(i := Picked (row_id r))\<rparr>)"
| compute: "txns s i = Picked u \<Longrightarrow>
     pg_step s (s\<lparr>txns := (txns s)(i := Computed u (next_leaf (rows s)))\<rparr>)"
| commit: "txns s i = Computed u n \<Longrightarrow>
     pg_step s (s\<lparr>rows := set_leaf u n (rows s), txns := (txns s)(i := Idle)\<rparr>)"
| rollback: "pg_step s (s\<lparr>txns := (txns s)(i := Idle)\<rparr>)"
| insert: "pg_step s (s\<lparr>rows := insert_row u (rows s)\<rparr>)"

inductive_cases pg_stepE: "pg_step s t"

definition rows_view :: "pg_row list \<Rightarrow> leaf_view" where
  "rows_view rs = pg_view \<lparr>pg_rows = rs, pg_audit = [], pg_net = []\<rparr>"

text \<open>Row locks are exclusive, and a locked row is pending.\<close>

definition race_inv :: "race \<Rightarrow> bool" where
  "race_inv s \<longleftrightarrow> distinct (map row_id (rows s))
     \<and> (\<forall>i u. holds (txns s i) u \<longrightarrow> rows_view (rows s) u = Some None)
     \<and> (\<forall>i j u. holds (txns s i) u \<and> holds (txns s j) u \<longrightarrow> i = j)"

lemma rows_view_set_leaf:
  "rows_view (set_leaf u n rs) = (if rows_view rs u = None then rows_view rs else (rows_view rs)(u \<mapsto> Some n))"
proof (rule ext)
  fix k
  show "rows_view (set_leaf u n rs) k
      = (if rows_view rs u = None then rows_view rs else (rows_view rs)(u \<mapsto> Some n)) k"
    by (induction rs) (auto simp: rows_view_def pg_view_def set_leaf_def split: if_splits)
qed

lemma rows_view_insert:
  "rows_view (insert_row u rs) = (if rows_view rs u = None then (rows_view rs)(u \<mapsto> None) else rows_view rs)"
  unfolding rows_view_def by (rule pg_insert_view) simp

lemma rows_view_member:
  "distinct (map row_id rs) \<Longrightarrow> r \<in> set rs \<Longrightarrow> rows_view rs (row_id r) = Some (row_leaf r)"
  unfolding rows_view_def by (auto simp: pg_view_iff)

lemma insert_row_ids: "distinct (map row_id rs) \<Longrightarrow> distinct (map row_id (insert_row u rs))"
  by (auto simp: insert_row_def)

text \<open>One step keeps the lock discipline and every index given.\<close>

lemma pg_step_safe:
  assumes "pg_step s t" and inv: "race_inv s"
  shows "race_inv t" and "grows (rows_view (rows s)) (rows_view (rows t))"
proof -
  note parts = inv [unfolded race_inv_def]
  have "race_inv t \<and> grows (rows_view (rows s)) (rows_view (rows t))"
    using assms(1)
  proof cases
    case (pick i before r after)
    have "rows_view (rows s) (row_id r) = Some None"
      using parts pick rows_view_member [of "rows s" r] by (simp add: free_row_def)
    with parts pick show ?thesis by (auto simp: race_inv_def free_row_def)
  next
    case (compute i u)
    then have "holds (txns s i) v \<longleftrightarrow> v = u" for v by auto
    with parts compute(1) show ?thesis by (auto simp: race_inv_def split: if_splits)
  next
    case (commit i u n)
    then have pend: "rows_view (rows s) u = Some None" and only: "\<forall>j. holds (txns s j) u \<longrightarrow> j = i"
      using parts by (metis holds.simps(3))+
    then have v: "rows_view (rows t) = (rows_view (rows s))(u \<mapsto> Some n)"
      using commit(1) by (simp add: rows_view_set_leaf)
    have "race_inv t" using parts only commit(1) v by (auto simp: race_inv_def)
    moreover have "grows (rows_view (rows s)) (rows_view (rows t))"
      using pend v by (auto simp: grows_def split: if_splits)
    ultimately show ?thesis by blast
  next
    case (rollback i)
    with parts show ?thesis by (auto simp: race_inv_def)
  next
    case (insert u)
    with parts show ?thesis
      by (auto simp: race_inv_def rows_view_insert insert_row_ids grows_def)
  qed
  then show "race_inv t" and "grows (rows_view (rows s)) (rows_view (rows t))" by blast+
qed

text \<open>At most one transaction is open, and what it has computed is above every index in use.\<close>

definition single_txn :: "race \<Rightarrow> bool" where
  "single_txn s \<longleftrightarrow> (\<forall>i j. txns s i \<noteq> Idle \<and> txns s j \<noteq> Idle \<longrightarrow> i = j)"

definition above_all :: "race \<Rightarrow> bool" where
  "above_all s \<longleftrightarrow> inj_leaves (rows_view (rows s))
     \<and> (\<forall>i u n. txns s i = Computed u n \<longrightarrow> (\<forall>k l. rows_view (rows s) k = Some (Some l) \<longrightarrow> l < n))"

definition rows_room :: "race \<Rightarrow> bool" where
  "rows_room s \<longleftrightarrow> (\<forall>k l. rows_view (rows s) k = Some (Some l) \<longrightarrow> 0 \<le> l \<and> l < max_int64)"

definition serial_step :: "race \<Rightarrow> race \<Rightarrow> bool" where
  "serial_step s t \<longleftrightarrow> pg_step s t \<and> single_txn s \<and> single_txn t \<and> rows_room s"

lemma next_leaf_above_view:
  assumes "distinct (map row_id (rows s))" and "rows_room s"
    and "rows_view (rows s) k = Some (Some l)"
  shows "l < next_leaf (rows s)"
proof -
  let ?p = "\<lparr>pg_rows = rows s, pg_audit = [], pg_net = []\<rparr>"
  have mem: "r \<in> set (rows s) \<Longrightarrow> row_leaf r = Some i \<Longrightarrow> 0 \<le> i \<and> i < max_int64" for r i
    using assms(1,2) rows_view_member [of "rows s" r] by (simp add: rows_room_def)
  then have "pg_inv ?p" and "pg_room ?p"
    using assms(1) by (auto simp: pg_inv_def pg_room_def less_imp_le)
  moreover obtain r where "r \<in> set (rows s)" and "row_leaf r = Some l"
    using assms(1,3) pg_view_iff [of ?p k "Some l"] by (auto simp: rows_view_def)
  ultimately show ?thesis using next_leaf_above(3) [of ?p r l] by simp
qed

lemma serial_step_safe:
  assumes "serial_step s t" and inv: "race_inv s" and above: "above_all s"
  shows "above_all t"
proof -
  from assms(1) have step: "pg_step s t" and single: "single_txn s" and room: "rows_room s"
    by (simp_all add: serial_step_def)
  from inv have dist: "distinct (map row_id (rows s))" by (simp add: race_inv_def)
  from step show ?thesis
  proof cases
    case (pick i before r after)
    with above show ?thesis by (auto simp: above_all_def split: if_splits)
  next
    case (compute i u)
    with above next_leaf_above_view [OF dist room] show ?thesis
      by (auto simp: above_all_def split: if_splits)
  next
    case (commit i u n)
    have pend: "rows_view (rows s) u = Some None"
      using inv commit(2) unfolding race_inv_def by (metis holds.simps(3))
    then have v: "rows_view (rows t) = (rows_view (rows s))(u \<mapsto> Some n)"
      using commit(1) by (simp add: rows_view_set_leaf)
    have "\<forall>k l. rows_view (rows s) k = Some (Some l) \<longrightarrow> l < n"
      using above commit(2) unfolding above_all_def by blast
    then have "inj_leaves (rows_view (rows t))"
      using above v unfolding above_all_def inj_leaves_def by (auto split: if_splits)
    moreover have "txns t j = Idle" for j
    proof (cases "j = i")
      case False
      moreover have "txns s i \<noteq> Idle" using commit(2) by simp
      ultimately have "txns s j = Idle" using single unfolding single_txn_def by blast
      with False commit(1) show ?thesis by simp
    qed (simp add: commit(1))
    ultimately show ?thesis by (simp add: above_all_def)
  next
    case (rollback i)
    with above show ?thesis by (auto simp: above_all_def split: if_splits)
  next
    case (insert u)
    with above show ?thesis
      by (auto simp: above_all_def rows_view_insert inj_leaves_def split: if_splits)
  qed
qed

text \<open>C14: No interleaving of assigning processes, inserts and rollbacks changes a leaf index that was
  given, or removes a record.\<close>

theorem race_append_only:
  assumes "pg_step\<^sup>*\<^sup>* s t" and "race_inv s"
  shows "grows (rows_view (rows s)) (rows_view (rows t))"
proof -
  have "race_inv t \<and> grows (rows_view (rows s)) (rows_view (rows t))"
    using assms by (induction rule: rtranclp_induct) (auto dest: pg_step_safe intro: grows_trans)
  then show ?thesis by blast
qed

text \<open>C15: While at most one transaction is open at a time, all leaf indices stay distinct.\<close>

theorem race_serial_distinct:
  assumes "serial_step\<^sup>*\<^sup>* s t" and "race_inv s" and "inj_leaves (rows_view (rows s))"
    and "\<forall>i. txns s i = Idle"
  shows "inj_leaves (rows_view (rows t))"
proof -
  have "above_all s" using assms(3,4) by (simp add: above_all_def)
  with assms(1,2) have "race_inv t \<and> above_all t"
  proof (induction rule: rtranclp_induct)
    case (step t u)
    then have "pg_step t u" by (simp add: serial_step_def)
    with step show ?case by (auto dest: pg_step_safe(1) serial_step_safe)
  qed simp
  then show ?thesis by (simp add: above_all_def)
qed

text \<open>Two records and two processes; the other processes stay idle.\<close>

definition race_state :: "int option \<Rightarrow> int option \<Rightarrow> txn \<Rightarrow> txn \<Rightarrow> race" where
  "race_state la lb t0 t1 =
     \<lparr>rows = [\<lparr>row_id = ''a'', row_leaf = la\<rparr>, \<lparr>row_id = ''b'', row_leaf = lb\<rparr>],
      txns = (\<lambda>_. Idle)(0 := t0, Suc 0 := t1)\<rparr>"

lemma race_state_txns:
  "txns (race_state la lb t0 t1) 0 = t0" "txns (race_state la lb t0 t1) (Suc 0) = t1"
  "rows (race_state la lb t0 t1) = [\<lparr>row_id = ''a'', row_leaf = la\<rparr>, \<lparr>row_id = ''b'', row_leaf = lb\<rparr>]"
  "(race_state la lb t0 t1)\<lparr>txns := (txns (race_state la lb t0 t1))(0 := t)\<rparr> = race_state la lb t t1"
  "(race_state la lb t0 t1)\<lparr>txns := (txns (race_state la lb t0 t1))(Suc 0 := t)\<rparr> = race_state la lb t0 t"
  by (auto simp: race_state_def fun_eq_iff)

lemma race_state_free:
  "free_row (race_state la lb t0 t1) r \<longleftrightarrow>
     row_leaf r = None \<and> \<not> holds t0 (row_id r) \<and> \<not> holds t1 (row_id r)"
  by (auto simp: free_row_def race_state_def)

lemma race_pick0: "pg_step (race_state None lb Idle t1) (race_state None lb (Picked ''a'') t1)"
  if "\<not> holds t1 ''a''"
  using pg_step.pick [of "race_state None lb Idle t1" 0 "[]" "\<lparr>row_id = ''a'', row_leaf = None\<rparr>"
      "[\<lparr>row_id = ''b'', row_leaf = lb\<rparr>]"] that
  by (simp add: race_state_txns race_state_free)

lemma race_pick1:
  "pg_step (race_state None None (Picked ''a'') Idle) (race_state None None (Picked ''a'') (Picked ''b''))"
  using pg_step.pick [of "race_state None None (Picked ''a'') Idle" "Suc 0"
      "[\<lparr>row_id = ''a'', row_leaf = None\<rparr>]" "\<lparr>row_id = ''b'', row_leaf = None\<rparr>" "[]"]
  by (simp add: race_state_txns race_state_free)

lemma race_compute:
  "pg_step (race_state None None (Picked ''a'') t1) (race_state None None (Computed ''a'' 0) t1)"
  "pg_step (race_state None None t0 (Picked ''b'')) (race_state None None t0 (Computed ''b'' 0))"
proof -
  have n: "next_leaf (rows (race_state None None t0 t1)) = 0" for t0 t1
    by (simp add: race_state_txns next_leaf_def max_leaf_def)
  show "pg_step (race_state None None (Picked ''a'') t1) (race_state None None (Computed ''a'' 0) t1)"
    using pg_step.compute [of "race_state None None (Picked ''a'') t1" 0 "''a''"]
    unfolding n by (simp add: race_state_txns)
  show "pg_step (race_state None None t0 (Picked ''b'')) (race_state None None t0 (Computed ''b'' 0))"
    using pg_step.compute [of "race_state None None t0 (Picked ''b'')" "Suc 0" "''b''"]
    unfolding n by (simp add: race_state_txns)
qed

lemma race_commit:
  "pg_step (race_state None None (Computed ''a'' 0) t1) (race_state (Some 0) None Idle t1)"
  "pg_step (race_state la None t0 (Computed ''b'' 0)) (race_state la (Some 0) t0 Idle)"
proof -
  have "(race_state None None (Computed ''a'' 0) t1)\<lparr>rows := set_leaf ''a'' 0 (rows (race_state None None (Computed ''a'' 0) t1)),
      txns := (txns (race_state None None (Computed ''a'' 0) t1))(0 := Idle)\<rparr> = race_state (Some 0) None Idle t1"
    by (simp add: race_state_def set_leaf_def fun_eq_iff)
  with pg_step.commit [of "race_state None None (Computed ''a'' 0) t1" 0 "''a''" 0]
  show "pg_step (race_state None None (Computed ''a'' 0) t1) (race_state (Some 0) None Idle t1)"
    by (simp add: race_state_txns)
  have "(race_state la None t0 (Computed ''b'' 0))\<lparr>rows := set_leaf ''b'' 0 (rows (race_state la None t0 (Computed ''b'' 0))),
      txns := (txns (race_state la None t0 (Computed ''b'' 0)))(Suc 0 := Idle)\<rparr> = race_state la (Some 0) t0 Idle"
    by (simp add: race_state_def set_leaf_def fun_eq_iff)
  with pg_step.commit [of "race_state la None t0 (Computed ''b'' 0)" "Suc 0" "''b''" 0]
  show "pg_step (race_state la None t0 (Computed ''b'' 0)) (race_state la (Some 0) t0 Idle)"
    by (simp add: race_state_txns)
qed

lemma race_state_inv: "race_inv (race_state la lb Idle Idle)"
  by (auto simp: race_inv_def race_state_def split: if_splits)

text \<open>C16: Two processes that assign at the same time can give the same leaf index to two records.\<close>

theorem race_duplicate:
  "\<exists>t. pg_step\<^sup>*\<^sup>* (race_state None None Idle Idle) t
     \<and> rows_view (rows t) ''a'' = Some (Some 0) \<and> rows_view (rows t) ''b'' = Some (Some 0)"
proof (rule exI [of _ "race_state (Some 0) (Some 0) Idle Idle"], intro conjI)
  note steps = race_pick0 [of Idle None] race_pick1 race_compute(1) [of "Picked ''b''"]
    race_compute(2) [of "Computed ''a'' 0"] race_commit(1) [of "Computed ''b'' 0"]
    race_commit(2) [of "Some 0" Idle]
  show "pg_step\<^sup>*\<^sup>* (race_state None None Idle Idle) (race_state (Some 0) (Some 0) Idle Idle)"
    using steps by (auto intro: converse_rtranclp_into_rtranclp)
qed (simp_all add: race_state_txns rows_view_def pg_view_def)

lemma race_one_commit:
  "pg_step\<^sup>*\<^sup>* (race_state None None Idle Idle) (race_state (Some 0) None Idle Idle)"
proof -
  note steps = race_pick0 [of Idle None] race_compute(1) [of Idle] race_commit(1) [of Idle]
  then show ?thesis by (auto intro: converse_rtranclp_into_rtranclp)
qed

theorem race_append_only_witness:
  "grows (rows_view (rows (race_state None None Idle Idle)))
     (rows_view (rows (race_state (Some 0) None Idle Idle)))"
  by (rule race_append_only [OF race_one_commit race_state_inv])

lemma race_state_serial:
  "single_txn (race_state la None t0 Idle)"
  "rows_room (race_state (Some 0) None t0 Idle)" "rows_room (race_state None None t0 Idle)"
  by (auto simp: single_txn_def rows_room_def race_state_def rows_view_def pg_view_def max_int64_def
      split: if_splits)

theorem race_serial_distinct_witness:
  "inj_leaves (rows_view (rows (race_state (Some 0) None Idle Idle)))"
proof -
  have "serial_step (race_state None None Idle Idle) (race_state None None (Picked ''a'') Idle)"
    and "serial_step (race_state None None (Picked ''a'') Idle) (race_state None None (Computed ''a'' 0) Idle)"
    and "serial_step (race_state None None (Computed ''a'' 0) Idle) (race_state (Some 0) None Idle Idle)"
    using race_pick0 [of Idle None] race_compute(1) [of Idle] race_commit(1) [of Idle]
    by (simp_all add: serial_step_def race_state_serial)
  then have "serial_step\<^sup>*\<^sup>* (race_state None None Idle Idle) (race_state (Some 0) None Idle Idle)"
    by (auto intro: converse_rtranclp_into_rtranclp)
  moreover have "inj_leaves (rows_view (rows (race_state None None Idle Idle)))"
    by (auto simp: race_state_txns inj_leaves_def rows_view_def pg_view_def split: if_splits)
  moreover have "\<forall>i. txns (race_state None None Idle Idle) i = Idle" by (simp add: race_state_def)
  ultimately show ?thesis using race_serial_distinct race_state_inv by blast
qed

end
