(* ===== verification/Liveness.thy ===== *)
theory Liveness
  imports VaultRuns
begin

text \<open>
  The committer of \<open>handler/ingest.go\<close> makes progress: rounds of its loop, in whatever order each
  visits the map, assign every pending record after as many rounds as there were pending records.
\<close>

definition pending_ids :: "vault \<Rightarrow> string set" where
  "pending_ids s = {k. record_pending s k}"

text \<open>Rounds of the loop without a store, one iteration order each.\<close>

definition committer_rounds :: "any_store store_ops \<Rightarrow> string list list \<Rightarrow> vault \<Rightarrow> vault" where
  "committer_rounds ops orders s = fold (\<lambda>order. committer_tick ops [] order) orders s"

lemma pending_key: "record_pending s k \<Longrightarrow> k \<in> gm_keys (storeMap s)"
  by (auto simp: record_pending_def gm_keys_dom split: option.splits)

lemma pending_finite [simp]: "finite (pending_ids s)"
proof (rule finite_subset)
  show "pending_ids s \<subseteq> gm_keys (storeMap s)" using pending_key by (auto simp: pending_ids_def)
  show "finite (gm_keys (storeMap s))" by (simp add: gm_keys_def)
qed

lemma commit_keys [simp]: "gm_keys (storeMap (commit_memory order s)) = gm_keys (storeMap s)"
proof (cases "List.find (record_pending s) order")
  case (Some k)
  then have "record_pending s k" by (simp add: find_Some_iff) blast
  then have "k \<in> gm_keys (storeMap s)" by (rule pending_key)
  with Some show ?thesis by (simp add: commit_memory_def Let_def insert_absorb)
qed (simp add: commit_memory_def)

text \<open>One round: exactly one pending record is assigned the next index, if there is one.\<close>

lemma commit_progress:
  assumes "set order = gm_keys (storeMap s)"
  shows "pending_ids s = {} \<and> commit_memory order s = s
    \<or> (\<exists>k \<in> pending_ids s. pending_ids (commit_memory order s) = pending_ids s - {k}
         \<and> next_index (commit_memory order s) = wrap64 (next_index s + 1))"
proof (cases "List.find (record_pending s) order")
  case None
  then have "pending_ids s = {}"
    using assms pending_key by (auto simp: pending_ids_def find_None_iff)
  with None show ?thesis by (simp add: commit_memory_def)
next
  case (Some k)
  then have k: "record_pending s k" by (simp add: find_Some_iff) blast
  then have "pending_ids (commit_memory order s) = pending_ids s - {k}"
    using Some by (auto simp: pending_ids_def commit_memory_def Let_def record_pending_def split: if_splits)
  moreover have "next_index (commit_memory order s) = wrap64 (next_index s + 1)"
    using Some by (simp add: commit_memory_def Let_def)
  ultimately show ?thesis using k by (auto simp: pending_ids_def)
qed

lemma commit_progress_card:
  assumes "set order = gm_keys (storeMap s)" "0 \<le> next_index s" "next_index s < max_int64"
  shows "card (pending_ids (commit_memory order s)) = card (pending_ids s) - 1
    \<and> next_index (commit_memory order s) = next_index s + int (min (card (pending_ids s)) 1)"
  using commit_progress [OF assms(1)]
proof
  assume "pending_ids s = {} \<and> commit_memory order s = s"
  then show ?thesis by simp
next
  assume "\<exists>k \<in> pending_ids s. pending_ids (commit_memory order s) = pending_ids s - {k}
         \<and> next_index (commit_memory order s) = wrap64 (next_index s + 1)"
  then obtain k where k: "k \<in> pending_ids s" "pending_ids (commit_memory order s) = pending_ids s - {k}"
    "next_index (commit_memory order s) = wrap64 (next_index s + 1)" by blast
  have "in_int64 (next_index s)" using assms(2,3) by (intro in_int64_small) simp_all
  moreover have "0 < card (pending_ids s)" using k(1) by (auto simp: card_gt_0_iff)
  ultimately show ?thesis using k assms(3) by (simp add: card_Diff_singleton wrap64_succ)
qed

lemma rounds_progress:
  assumes "vault_inv s" "current_store s = None" "\<forall>order \<in> set orders. iter_order (storeMap s) order"
    and "next_index s + int (length orders) < max_int64"
  shows "vault_inv (committer_rounds ops orders s) \<and> grows (vault_leaf s) (vault_leaf (committer_rounds ops orders s))
    \<and> gm_keys (storeMap (committer_rounds ops orders s)) = gm_keys (storeMap s)
    \<and> card (pending_ids (committer_rounds ops orders s)) = card (pending_ids s) - length orders
    \<and> next_index (committer_rounds ops orders s) = next_index s + int (min (card (pending_ids s)) (length orders))"
  using assms
proof (induction orders arbitrary: s)
  case Nil
  then show ?case by (simp add: committer_rounds_def grows_def)
next
  case (Cons order orders)
  let ?s = "commit_memory order s"
  have next_s: "0 \<le> next_index s" "next_index s < max_int64"
    using Cons.prems(1) by (simp_all add: vault_inv_def mem_inv_def)
  have keys: "set order = gm_keys (storeMap s)" using Cons.prems(3) by (simp add: iter_order_def)
  note step = commit_progress_card [OF keys next_s]
  have "next_index s < max_int64 - 1" using Cons.prems(4) by simp
  note inv = commit_inv [OF Cons.prems(1) this, of order]
  have rest: "\<forall>ord \<in> set orders. iter_order (storeMap ?s) ord" using Cons.prems(3) by (simp add: iter_order_def)
  have "next_index ?s + int (length orders) < max_int64" using step Cons.prems(4) by simp
  note IH = Cons.IH [OF inv(1) _ rest this]
  have run: "committer_rounds ops (order # orders) s = committer_rounds ops orders ?s"
    using Cons.prems(2) by (simp add: committer_rounds_def committer_tick_def)
  have "current_store ?s = None" using Cons.prems(2) by simp
  moreover have "int (min c 1) + int (min (c - 1) l) = int (min c (Suc l))" for c l :: nat
    by (cases c) simp_all
  ultimately show ?case
    using IH step inv(3) unfolding run by (auto simp: add.assoc intro: grows_trans)
qed

text \<open>C9: The committer catches up: after as many rounds as records are pending, in whatever order
  each round visits the map, no record is pending, every record has an index below the counter and
  no index that was given before has changed; fewer rounds are not enough.\<close>

theorem committer_catches_up:
  assumes "vault_inv s" "current_store s = None" "\<forall>order \<in> set orders. iter_order (storeMap s) order"
    and "next_index s + int (length orders) < max_int64"
  shows "(pending_ids (committer_rounds ops orders s) = {} \<longleftrightarrow> card (pending_ids s) \<le> length orders)
    \<and> grows (vault_leaf s) (vault_leaf (committer_rounds ops orders s))
    \<and> (card (pending_ids s) \<le> length orders \<longrightarrow>
         next_index (committer_rounds ops orders s) = next_index s + int (card (pending_ids s))
         \<and> (\<forall>k \<in> gm_keys (storeMap s). \<exists>l. vault_leaf (committer_rounds ops orders s) k = Some (Some l)
              \<and> 0 \<le> l \<and> l < next_index (committer_rounds ops orders s)))"
proof -
  let ?s = "committer_rounds ops orders s"
  note run = rounds_progress [OF assms, of ops]
  have empty: "pending_ids ?s = {} \<longleftrightarrow> card (pending_ids s) \<le> length orders"
    using run by (metis card_0_eq diff_is_0_eq pending_finite)
  have "\<exists>l. vault_leaf ?s k = Some (Some l) \<and> 0 \<le> l \<and> l < next_index ?s"
    if "k \<in> gm_keys (storeMap s)" "pending_ids ?s = {}" for k
  proof -
    have "k \<in> gm_keys (storeMap ?s)" "\<not> record_pending ?s k" using that run by (auto simp: pending_ids_def)
    then obtain r l where "map_of (storeMap ?s) k = Some r" "rec_leaf r = Some l"
      by (auto simp: gm_keys_dom record_pending_def split: option.splits)
    then have l: "vault_leaf ?s k = Some (Some l)" by (simp add: vault_leaf_lookup)
    moreover have "mem_inv (vault_mem ?s)" using run by (simp add: vault_inv_def)
    ultimately show ?thesis by (simp add: mem_inv_def)
  qed
  with empty run show ?thesis by simp
qed

lemma committer_catches_up_witness:
  "pending_ids (committer_rounds (any_ops Some [] 0) [[''b'', ''a''], [''a'', ''b'']]
     (ingest_record ''b'' [] 0 (ingest_record ''a'' [] 0 initial_vault))) = {}"
proof -
  let ?s = "ingest_record ''b'' [] 0 (ingest_record ''a'' [] 0 initial_vault)"
  have map: "storeMap ?s = [(''a'', \<lparr>rec_id = ''a'', rec_leaf = None\<rparr>), (''b'', \<lparr>rec_id = ''b'', rec_leaf = None\<rparr>)]"
    by (simp add: ingest_record_def initial_vault_def)
  then have "pending_ids ?s = {''a'', ''b''}"
    by (auto simp: pending_ids_def record_pending_def split: if_splits)
  moreover have "vault_inv ?s"
    by (intro inv_intros) (simp_all add: ingest_record_def initial_vault_def)
  moreover have "current_store ?s = None" "next_index ?s = 0" by (simp_all add: initial_vault_def)
  ultimately show ?thesis
    using committer_catches_up [of ?s "[[''b'', ''a''], [''a'', ''b'']]" "any_ops Some [] 0"]
    by (simp add: iter_order_def gm_keys_def map max_int64_def insert_commute)
qed

end
