(* ===== verification/Ledger.thy ===== *)
theory Ledger
  imports Liveness
begin

text \<open>
  The contract of the vault, without its implementation: a ledger of records that wait, a log that
  only grows at its end, and the sizes of the log for which a checkpoint was published. Every step
  of the handlers in \<open>handler/ingest.go\<close>, in any interleaving, is a step of the ledger or leaves it
  alone. The locale \<open>forward_simulation\<close> lifts this from steps to runs.
\<close>

subsection \<open>Forward simulation\<close>

locale forward_simulation =
  fixes concrete :: "'c \<Rightarrow> 'c \<Rightarrow> bool"
    and abstract :: "'a \<Rightarrow> 'a \<Rightarrow> bool"
    and good :: "'c \<Rightarrow> bool"
    and related :: "'c \<Rightarrow> 'a \<Rightarrow> bool"
  assumes good_step: "good c \<Longrightarrow> concrete c c' \<Longrightarrow> good c'"
    and simulates: "good c \<Longrightarrow> related c a \<Longrightarrow> concrete c c' \<Longrightarrow> \<exists>a'. abstract\<^sup>*\<^sup>* a a' \<and> related c' a'"
begin

lemma runs:
  assumes "concrete\<^sup>*\<^sup>* c c'" "good c" "related c a"
  shows "good c' \<and> (\<exists>a'. abstract\<^sup>*\<^sup>* a a' \<and> related c' a')"
  using assms
proof (induction rule: rtranclp_induct)
  case (step d d')
  then obtain a' where "good d" "abstract\<^sup>*\<^sup>* a a'" "related d a'" by blast
  with step.hyps(2) simulates [of d a' d'] good_step [of d d'] show ?case by (meson rtranclp_trans)
qed blast

end

subsection \<open>The ledger\<close>

record ledger =
  waiting :: "string set"
  sealed :: "string list"
  heads :: "int set"

definition empty_ledger :: ledger where
  "empty_ledger = \<lparr>waiting = {}, sealed = [], heads = {}\<rparr>"

inductive ledger_step :: "ledger \<Rightarrow> ledger \<Rightarrow> bool" where
  submit: "i \<notin> waiting a \<Longrightarrow> i \<notin> set (sealed a) \<Longrightarrow> ledger_step a (a\<lparr>waiting := insert i (waiting a)\<rparr>)"
| seal: "i \<in> waiting a \<Longrightarrow> ledger_step a (a\<lparr>waiting := waiting a - {i}, sealed := sealed a @ [i]\<rparr>)"
| head: "0 < n \<Longrightarrow> n \<le> int (length (sealed a)) \<Longrightarrow> ledger_step a (a\<lparr>heads := insert n (heads a)\<rparr>)"

text \<open>What the ledger promises by itself.\<close>

definition ledger_ok :: "ledger \<Rightarrow> bool" where
  "ledger_ok a \<longleftrightarrow> distinct (sealed a) \<and> waiting a \<inter> set (sealed a) = {} \<and> heads a \<subseteq> {0<..int (length (sealed a))}"

definition ledger_extends :: "ledger \<Rightarrow> ledger \<Rightarrow> bool" where
  "ledger_extends a a' \<longleftrightarrow> prefix (sealed a) (sealed a') \<and> heads a \<subseteq> heads a'
     \<and> waiting a \<union> set (sealed a) \<subseteq> waiting a' \<union> set (sealed a')"

lemma ledger_step_ok: "ledger_step a a' \<Longrightarrow> ledger_ok a \<Longrightarrow> ledger_ok a' \<and> ledger_extends a a'"
  by (induction rule: ledger_step.induct) (auto simp: ledger_ok_def ledger_extends_def)

lemma ledger_steps_ok: "ledger_step\<^sup>*\<^sup>* a a' \<Longrightarrow> ledger_ok a \<Longrightarrow> ledger_ok a' \<and> ledger_extends a a'"
proof (induction rule: rtranclp_induct)
  case (step b c)
  then have "ledger_ok b" "ledger_extends a b" "ledger_ok c" "ledger_extends b c"
    using ledger_step_ok by blast+
  then show ?case unfolding ledger_extends_def by (meson prefix_order.order_trans subset_trans)
qed (simp add: ledger_extends_def)

subsection \<open>The vault as a ledger\<close>

definition vault_ledger :: "vault \<Rightarrow> ledger \<Rightarrow> bool" where
  "vault_ledger v a \<longleftrightarrow>
     waiting a = pending_ids v \<and> int (length (sealed a)) = next_index v
     \<and> (\<forall>i < length (sealed a). vault_leaf v (sealed a ! i) = Some (Some (int i)))
     \<and> heads a = dom (map_of (checkpointHistory v))"

lemma pending_leaf: "pending_ids v = {k. vault_leaf v k = Some None}"
  by (auto simp: pending_ids_def record_pending_def vault_leaf_lookup split: option.splits)

lemma initial_ledger: "vault_ledger initial_vault empty_ledger" "ledger_ok empty_ledger"
  by (simp_all add: vault_ledger_def empty_ledger_def ledger_ok_def pending_ids_def record_pending_def initial_vault_def)

text \<open>The log lists the records that have an index, in the order of the indices.\<close>

lemma sealed_iff:
  assumes "vault_inv v" "vault_ledger v a"
  shows "k \<in> set (sealed a) \<longleftrightarrow> (\<exists>l. vault_leaf v k = Some (Some l))"
proof
  assume "k \<in> set (sealed a)"
  then show "\<exists>l. vault_leaf v k = Some (Some l)"
    using assms(2) by (auto simp: vault_ledger_def in_set_conv_nth)
next
  assume "\<exists>l. vault_leaf v k = Some (Some l)"
  then obtain l where l: "vault_leaf v k = Some (Some l)" by blast
  then have "0 \<le> l" "l < next_index v" using assms(1) by (auto simp: vault_inv_def mem_inv_def)
  then have i: "nat l < length (sealed a)" "int (nat l) = l" using assms(2) by (auto simp: vault_ledger_def)
  then have "vault_leaf v (sealed a ! nat l) = Some (Some l)" using assms(2) by (metis vault_ledger_def)
  with l have "sealed a ! nat l = k" using assms(1) by (auto simp: vault_inv_def inj_leaves_def)
  with i show "k \<in> set (sealed a)" by auto
qed

lemma ingest_ledger:
  assumes "vault_inv v" "vault_ledger v a" "map_of (storeMap v) i = None"
  shows "\<exists>a'. ledger_step\<^sup>*\<^sup>* a a' \<and> vault_ledger (ingest_record i who now v) a'"
proof -
  have none: "vault_leaf v i = None" using assms(3) by (simp add: vault_leaf_lookup)
  then have fresh: "i \<notin> waiting a" "i \<notin> set (sealed a)"
    using assms(2) sealed_iff [OF assms(1,2)] by (auto simp: vault_ledger_def pending_leaf)
  note leaf = ingest_inv(2) [OF assms(1,3), of who now]
  have "vault_ledger (ingest_record i who now v) (a\<lparr>waiting := insert i (waiting a)\<rparr>)"
    using assms(2) none fresh(2) by (auto simp: vault_ledger_def pending_leaf leaf)
  with submit [OF fresh] show ?thesis by blast
qed

lemma commit_ledger:
  assumes "vault_inv v" "vault_ledger v a" "next_index v < max_int64 - 1"
  shows "\<exists>a'. ledger_step\<^sup>*\<^sup>* a a' \<and> vault_ledger (commit_memory order v) a'"
proof (cases "List.find (record_pending v) order")
  case None
  with assms(2) show ?thesis by (auto simp: commit_memory_def)
next
  case (Some k)
  let ?v = "commit_memory order v"
  have k: "k \<in> pending_ids v" using find_Some_in [OF Some] by (simp add: pending_ids_def)
  have next_k: "next_index ?v = next_index v + 1"
    using Some assms(1,3) by (simp add: commit_memory_def Let_def wrap64_succ vault_inv_def mem_inv_def in_int64_small)
  have leaf: "vault_leaf ?v = (vault_leaf v)(k \<mapsto> Some (next_index v))"
    by (rule ext) (use Some in \<open>simp add: commit_memory_def Let_def vault_leaf_lookup\<close>)
  have n: "int (length (sealed a)) = next_index v" using assms(2) by (simp add: vault_ledger_def)
  have old: "sealed a ! i \<noteq> k" if "i < length (sealed a)" for i
    using that assms(2) k by (auto simp: vault_ledger_def pending_leaf)
  let ?a = "a\<lparr>waiting := waiting a - {k}, sealed := sealed a @ [k]\<rparr>"
  have "waiting ?a = pending_ids ?v" using assms(2) by (auto simp: vault_ledger_def pending_leaf leaf)
  moreover have "vault_leaf ?v (sealed ?a ! i) = Some (Some (int i))" if "i < length (sealed ?a)" for i
    using that assms(2) n old by (auto simp: vault_ledger_def leaf nth_append less_Suc_eq)
  ultimately have "vault_ledger ?v ?a" using assms(2) n next_k by (simp add: vault_ledger_def)
  moreover have "ledger_step a ?a" by (rule seal) (use assms(2) k in \<open>simp add: vault_ledger_def\<close>)
  ultimately show ?thesis by blast
qed

lemma publish_ledger:
  assumes "vault_ledger v a" "0 < cp_tree_size cp" "cp_tree_size cp \<le> next_index v"
  shows "\<exists>a'. ledger_step\<^sup>*\<^sup>* a a' \<and> vault_ledger (publish cp v) a'"
proof -
  have "pending_ids (publish cp v) = pending_ids v" by (simp add: pending_leaf)
  moreover have "dom (map_of (checkpointHistory (publish cp v))) = insert (cp_tree_size cp) (dom (map_of (checkpointHistory v)))"
    by (simp add: publish_def Let_def)
  ultimately have "vault_ledger (publish cp v) (a\<lparr>heads := insert (cp_tree_size cp) (heads a)\<rparr>)"
    using assms(1) by (simp add: vault_ledger_def)
  moreover have "cp_tree_size cp \<le> int (length (sealed a))" using assms(1,3) by (simp add: vault_ledger_def)
  ultimately show ?thesis using head [OF assms(2)] by blast
qed

interpretation vl: forward_simulation sys_step ledger_step sys_inv "\<lambda>t. vault_ledger (vlt t)"
proof
  show "sys_inv t'" if "sys_inv t" "sys_step t t'" for t t'
    using sys_step_keeps [OF that(2,1)] by blast
  fix t t' a
  assume inv: "sys_inv t" and rel: "vault_ledger (vlt t) a" and "sys_step t t'"
  have v: "vault_inv (vlt t)" using inv by (simp add: sys_inv_def)
  from \<open>sys_step t t'\<close> show "\<exists>a'. ledger_step\<^sup>*\<^sup>* a a' \<and> vault_ledger (vlt t') a'"
  proof (cases rule: sys_stepE [case_names ingest commit compute hit miss answer, consumes 1])
    case (ingest i who now)
    then show ?thesis using ingest_ledger [OF v rel] by simp
  next
    case (commit order)
    then show ?thesis using commit_ledger [OF v rel] by simp
  next
    case (answer ts getenv post)
    with inv have "0 < ts" "ts \<le> next_index (vlt t)" by (auto simp: sys_inv_def)
    then have "\<exists>a'. ledger_step\<^sup>*\<^sup>* a a' \<and> vault_ledger (publish (sign_checkpoint getenv post ts) (vlt t)) a'"
      using publish_ledger [OF rel, of "sign_checkpoint getenv post ts"] by simp
    with answer show ?thesis by simp
  qed (use rel in auto)
qed

text \<open>C3: The vault refines the ledger: in every interleaving of ingests, commits and checkpoint requests
  the vault reached stands for a ledger, in which record ids wait, are sealed at the end of a log
  without repetition, and tree sizes are published that the log has reached; and whatever happens
  next extends that ledger, so the records that a published size counts are never replaced.\<close>

theorem vault_refines_ledger:
  assumes "sys_step\<^sup>*\<^sup>* initial_system t" and "sys_step\<^sup>*\<^sup>* t t'"
  shows "\<exists>a a'. ledger_step\<^sup>*\<^sup>* empty_ledger a \<and> ledger_step\<^sup>*\<^sup>* a a'
    \<and> vault_ledger (vlt t) a \<and> vault_ledger (vlt t') a'
    \<and> ledger_ok a' \<and> ledger_extends a a'
    \<and> (\<forall>n \<in> heads a. take (nat n) (sealed a') = take (nat n) (sealed a))"
proof -
  have "vlt initial_system = initial_vault" by (simp add: initial_system_def)
  with vl.runs [OF assms(1) initial_inv(2)] initial_ledger(1) obtain a where
    a: "sys_inv t" "ledger_step\<^sup>*\<^sup>* empty_ledger a" "vault_ledger (vlt t) a" by auto
  from vl.runs [OF assms(2) a(1,3)] obtain a' where
    a': "ledger_step\<^sup>*\<^sup>* a a'" "vault_ledger (vlt t') a'" by blast
  have ok: "ledger_ok a" using ledger_steps_ok [OF a(2) initial_ledger(2)] by blast
  with ledger_steps_ok [OF a'(1)] have ext: "ledger_ok a'" "ledger_extends a a'" by blast+
  have "take (nat n) (sealed a') = take (nat n) (sealed a)" if "n \<in> heads a" for n
  proof -
    obtain zs where "sealed a' = sealed a @ zs" using ext(2) by (auto simp: ledger_extends_def prefix_def)
    moreover have "n \<le> int (length (sealed a))" using ok that unfolding ledger_ok_def by force
    then have "nat n \<le> length (sealed a)" by simp
    ultimately show ?thesis by simp
  qed
  with a(2,3) a' ext show ?thesis by blast
qed

lemma vault_refines_ledger_witness:
  "\<exists>a. ledger_step\<^sup>*\<^sup>* empty_ledger a \<and> vault_ledger one_leaf a \<and> length (sealed a) = 1"
proof -
  have "vlt (initial_system\<lparr>vlt := one_leaf\<rparr>) = one_leaf" by simp
  moreover have "initial_system\<lparr>vlt := initial_vault\<rparr> = initial_system" by (simp add: initial_system_def)
  then have "sys_step\<^sup>*\<^sup>* initial_system (initial_system\<lparr>vlt := one_leaf\<rparr>)"
    using one_leaf_steps [of initial_system] by simp
  from vault_refines_ledger [OF this rtranclp.rtrancl_refl] obtain a where
    "ledger_step\<^sup>*\<^sup>* empty_ledger a" "vault_ledger one_leaf a" by auto
  moreover have "next_index one_leaf = 1" by (simp add: one_leaf_eval)
  ultimately show ?thesis by (auto simp: vault_ledger_def)
qed

end
