(* ===== verification/CiJwks.thy ===== *)
theory CiJwks
  imports Jwt
begin

text \<open>
  The key set server that the CI jobs run, \<open>scripts/ci_jwks.go\<close>: one RSA key, three tokens, the JSON
  key set, an environment file for the jobs, and an HTTP server for the key set. Key generation,
  the signing of a token (\<open>sign\<close>, of the token library) and the network (\<open>listen\<close>) are parameters.
\<close>

subsection \<open>The key set\<close>

text \<open>\<open>base64.RawURLEncoding\<close>: the alphabet with \<open>-\<close> and \<open>_\<close>, without padding.\<close>

definition b64u :: "bytes \<Rightarrow> string" where
  "b64u b =
     map (\<lambda>c. if c = CHR ''+'' then CHR ''-'' else if c = CHR ''/'' then CHR ''_'' else c)
       (filter (\<lambda>c. c \<noteq> CHR ''='') (b64_encode b))"

text \<open>\<open>big.Int.Bytes\<close>: big-endian, without leading zeros.\<close>

fun nat_bytes :: "nat \<Rightarrow> bytes" where
  "nat_bytes n = (if n = 0 then [] else nat_bytes (n div 256) @ [byte (n mod 256)])"

declare nat_bytes.simps [simp del]

record rsa_public =
  rsa_modulus :: nat
  rsa_exponent :: nat

definition makeJWK :: "rsa_public \<Rightarrow> json" where
  "makeJWK pub =
     jmap [(''kty'', JStr ''RSA''), (''kid'', JStr ''ci-test-key''), (''use'', JStr ''sig''), (''alg'', JStr ''RS256''),
           (''n'', JStr (b64u (nat_bytes (rsa_modulus pub)))), (''e'', JStr (b64u (nat_bytes (rsa_exponent pub))))]"

definition jwks_bytes :: "rsa_public \<Rightarrow> bytes" where
  "jwks_bytes pub = json_print (jmap [(''keys'', JArr [makeJWK pub])])"

subsection \<open>The tokens\<close>

text \<open>A nil slice of roles is \<open>None\<close>. \<open>now\<close> is in nanoseconds.\<close>

definition token_claims :: "int \<Rightarrow> string \<Rightarrow> string list option \<Rightarrow> claims" where
  "token_claims now sub roles =
     [(''sub'', CStr sub), (''roles'', case roles of None \<Rightarrow> CNil | Some rs \<Rightarrow> CStrs rs),
      (''aud'', CStrs [''vault-api'']), (''iat'', CNum (of_int (now div second_ns))),
      (''exp'', CNum (of_int ((now + 3600 * second_ns) div second_ns))), (''iss'', CStr ''ci-jwks'')]"

type_synonym token_signer = "string \<Rightarrow> string \<Rightarrow> claims \<Rightarrow> string option"

definition makeToken :: "token_signer \<Rightarrow> int \<Rightarrow> string \<Rightarrow> string list option \<Rightarrow> string option" where
  "makeToken sign now sub roles = sign ''RS256'' ''ci-test-key'' (token_claims now sub roles)"

subsection \<open>The server\<close>

definition newline :: string where "newline = [CHR 0x0A]"

text \<open>The same lines go into the environment file and to the output.\<close>

definition ci_env_lines :: "string \<Rightarrow> string \<Rightarrow> string \<Rightarrow> string \<Rightarrow> string" where
  "ci_env_lines ingester auditor noRoles port =
     ''E2E_INGESTER_TOKEN='' @ ingester @ newline @ ''E2E_AUDITOR_TOKEN='' @ auditor @ newline
     @ ''E2E_NO_ROLES_TOKEN='' @ noRoles @ newline @ ''JWKS_URL=http://localhost:'' @ port @ ''/jwks.json'' @ newline
     @ ''JWT_REQUIRED_ISSUER=ci-jwks'' @ newline @ ''JWT_REQUIRED_AUDIENCE=vault-api'' @ newline"

text \<open>The configured port, or any; when it is taken, any. No value: the process gives up.\<close>

definition ci_listen :: "env \<Rightarrow> (string \<Rightarrow> string option) \<Rightarrow> string option" where
  "ci_listen getenv listen =
     (let port = getenv ''CI_JWKS_PORT''
      in case listen ('':'' @ (if port = [] then ''0'' else port)) of
           Some actual \<Rightarrow> Some actual
         | None \<Rightarrow> listen '':0'')"

text \<open>The handlers of the default mux, and its answer to any other path in canonical form (the mux
  redirects a path that is not).\<close>

definition ci_handler :: "bytes \<Rightarrow> string \<Rightarrow> http_response" where
  "ci_handler jwks p =
     (if p = ''/jwks.json'' then \<lparr>status = 200, headers = json_type, content = jwks\<rparr>
      else if p = ''/health'' then \<lparr>status = 200, headers = [], content = ''ok''\<rparr>
      else http_not_found)"

record ci_server =
  ci_jwks :: bytes
  ci_port :: string
  ci_stdout :: string

definition write_file :: "(string \<Rightarrow> bool) \<Rightarrow> string \<Rightarrow> bytes \<Rightarrow> (string \<times> bytes) list" where
  "write_file writable p b = (if writable p then [(p, b)] else [])"

text \<open>The files that were written, and the server, unless the process gave up.\<close>

definition ci_main ::
    "rsa_public option \<Rightarrow> token_signer \<Rightarrow> env \<Rightarrow> (string \<Rightarrow> bool) \<Rightarrow> (string \<Rightarrow> string option) \<Rightarrow> int \<Rightarrow>
       (string \<times> bytes) list \<times> ci_server option" where
  "ci_main generated sign getenv writable listen now =
     (case (generated, makeToken sign now ''ci-ingester'' (Some [''ingester'']),
            makeToken sign now ''ci-auditor'' (Some [''auditor'']), makeToken sign now ''ci-no-roles'' None) of
        (Some pub, Some ingester, Some auditor, Some noRoles) \<Rightarrow>
          (let f1 = write_file writable ''scripts/jwks.json'' (jwks_bytes pub)
           in case ci_listen getenv listen of
                None \<Rightarrow> (f1, None)
              | Some port \<Rightarrow>
                  (let out = ci_env_lines ingester auditor noRoles port
                   in (f1 @ write_file writable ''scripts/ci_jwks_env.txt'' out,
                       Some \<lparr>ci_jwks = jwks_bytes pub, ci_port = port, ci_stdout = out\<rparr>)))
      | _ \<Rightarrow> ([], None))"

subsection \<open>The tokens at the middleware\<close>

text \<open>Claims as they arrive: JSON has no typed slices. Times below \<open>2 ^ 53\<close> seconds are exact floats.\<close>

fun wire_claim :: "claim \<Rightarrow> claim" where
  "wire_claim (CStrs ss) = CArr (map CStr ss)"
| "wire_claim c = c"

definition wire_claims :: "claims \<Rightarrow> claims" where
  "wire_claims cs = map (\<lambda>(k, c). (k, wire_claim c)) cs"

text \<open>
  What the token library documents: a token signed with RS256 parses under the matching key set,
  unless its own check of the times, which has no leeway, fails at \<open>now\<close> (in seconds); and its
  checks of single claims hold when the claims say so.
\<close>

definition documented_parse :: "'j jwt_lib \<Rightarrow> token_signer \<Rightarrow> 'j \<Rightarrow> int \<Rightarrow> string \<Rightarrow> claims \<Rightarrow> bool" where
  "documented_parse lib sign jwks now kid cs \<longleftrightarrow>
     (\<forall>tok algs iat expiry. sign ''RS256'' kid cs = Some tok \<longrightarrow> ''RS256'' \<in> set algs \<longrightarrow>
        map_of cs ''nbf'' = None \<longrightarrow> map_of cs ''iat'' = Some (CNum iat) \<longrightarrow> map_of cs ''exp'' = Some (CNum expiry) \<longrightarrow>
        lib_parse lib jwks algs tok =
          (if iat \<le> of_int now \<and> of_int now < expiry
           then Some \<lparr>tok_valid = True, tok_alg = ''RS256'', tok_kid = Some (CStr kid), tok_claims = wire_claims cs\<rparr>
           else None))"

definition documented_checks :: "'j jwt_lib \<Rightarrow> bool" where
  "documented_checks lib \<longleftrightarrow>
     (\<forall>cs t i. map_of cs ''exp'' = Some (CNum (of_int i)) \<longrightarrow> t < i \<longrightarrow> i \<noteq> 0 \<longrightarrow> VerifyExpiresAt lib cs t True)
     \<and> (\<forall>cs t i. map_of cs ''iat'' = Some (CNum (of_int i)) \<longrightarrow> i \<le> t \<longrightarrow> VerifyIssuedAt lib cs t False)
     \<and> (\<forall>cs t. map_of cs ''nbf'' = None \<longrightarrow> VerifyNotBefore lib cs t False)
     \<and> (\<forall>cs iss. map_of cs ''iss'' = Some (CStr iss) \<longrightarrow> VerifyIssuer lib cs iss True)
     \<and> (\<forall>cs aud. aud \<in> set (claim_audiences cs) \<longrightarrow> VerifyAudience lib cs aud True)"

lemma ci_settings:
  assumes "g ''JWT_ISSUER'' = []" "g ''JWT_REQUIRED_ISSUER'' = ''ci-jwks''"
    and "g ''JWT_AUDIENCE'' = []" "g ''JWT_REQUIRED_AUDIENCE'' = ''vault-api''"
  shows "read_issuer g = ''ci-jwks''" "read_audience g = [''vault-api'']"
  using assms
  by (simp_all add: read_issuer_def read_audience_def parseCSVEnv_def Let_def plain_eval)

lemma hour_later: "(now + 3600 * second_ns) div second_ns = now div second_ns + 3600"
  by (simp add: second_ns_def)

lemma one_hour:
  assumes "0 \<le> i" "i \<le> 9007199254740992"
  shows "time_Sub (time_Unix (i + 3600)) (time_Unix i) = 3600 * second_ns"
proof -
  have "time_Unix (i + 3600) = i + 62135600400" "time_Unix i = i + 62135596800"
    using assms by (simp_all add: time_Unix_def int64_defs)
  moreover have "wrap64 (3600 * second_ns) = 3600 * second_ns" "wrap64 3600 = 3600"
    "wrap64 (62135600400 + i) = 62135600400 + i"
    using assms by (simp_all add: second_ns_def int64_defs)
  ultimately show ?thesis by (simp add: time_Sub_def add_sec_def Let_def second_ns_def add.commute)
qed

lemma ci_claims:
  assumes cs: "cs = wire_claims (token_claims t0 sub roles)"
  shows "map_of cs ''sub'' = Some (CStr sub)" "map_of cs ''nbf'' = None"
    "map_of cs ''iat'' = Some (CNum (of_int (t0 div second_ns)))"
    "map_of cs ''exp'' = Some (CNum (of_int (t0 div second_ns + 3600)))"
    "map_of cs ''iss'' = Some (CStr ''ci-jwks'')" "claim_audiences cs = [''vault-api'']"
    "parseRoles cs = (case roles of None \<Rightarrow> [] | Some rs \<Rightarrow> rs)"
proof -
  have strs: "List.map_filter (\<lambda>v. claim_string (Some v)) (map CStr ss) = ss" for ss
    by (induction ss) (simp_all add: List.map_filter_def claim_string_def)
  show "map_of cs ''sub'' = Some (CStr sub)" "map_of cs ''nbf'' = None"
    "map_of cs ''iat'' = Some (CNum (of_int (t0 div second_ns)))"
    "map_of cs ''exp'' = Some (CNum (of_int (t0 div second_ns + 3600)))"
    "map_of cs ''iss'' = Some (CStr ''ci-jwks'')"
    by (simp_all add: cs wire_claims_def token_claims_def hour_later)
  show "claim_audiences cs = [''vault-api'']"
    by (simp add: claim_audiences_def cs wire_claims_def token_claims_def List.map_filter_def claim_string_def)
  show "parseRoles cs = (case roles of None \<Rightarrow> [] | Some rs \<Rightarrow> rs)"
    by (cases roles) (simp_all add: parseRoles_def cs wire_claims_def token_claims_def strs)
qed

lemma ci_valid:
  assumes doc: "documented_checks lib" and cs: "cs = wire_claims (token_claims t0 sub roles)"
    and "TrimSpace sub \<noteq> []" and skew: "0 \<le> skew" "skew \<le> 9223372036"
    and t: "0 \<le> t0" "t0 \<le> now" "now div second_ns < t0 div second_ns + 3600" "t0 div second_ns \<le> 9007199254740992"
    and ttl: "ttl = 0 \<or> 3600 \<le> ttl \<and> ttl \<le> 9223372036"
  shows "validateStandardClaims lib conv cs ''ci-jwks'' [''vault-api''] now (Seconds skew) (Seconds ttl)"
proof -
  have small: "Seconds n = n * second_ns" "wrap64 (- Seconds n) = - (n * second_ns)" if "0 \<le> n" "n \<le> 9223372036" for n
    using that by (simp_all add: Seconds_def second_ns_def int64_defs)
  have div: "unix_after now (- (skew * second_ns)) = now div second_ns - skew" "unix_after now (skew * second_ns) = now div second_ns + skew"
    using div_mult_self1 [of second_ns now "- skew"] div_mult_self1 [of second_ns now skew]
    by (simp_all add: unix_after_def second_ns_def algebra_simps)
  have iat: "0 \<le> t0 div second_ns" "t0 div second_ns \<le> now div second_ns"
    using t by (simp_all add: second_ns_def zdiv_mono1)
  note c = ci_claims [OF cs]
  have "VerifyExpiresAt lib cs (unix_after now (wrap64 (- Seconds skew))) True"
    unfolding small(2) [OF skew] div(1)
    by (rule doc [unfolded documented_checks_def, THEN conjunct1, rule_format, OF c(4)]) (use t(3) skew iat in simp_all)
  moreover have "VerifyIssuedAt lib cs (unix_after now (Seconds skew)) False"
    unfolding small(1) [OF skew] div(2)
    by (rule doc [unfolded documented_checks_def, THEN conjunct2, THEN conjunct1, rule_format, OF c(3)]) (use skew iat in simp)
  moreover have "VerifyNotBefore lib cs (unix_after now (Seconds skew)) False" "VerifyIssuer lib cs ''ci-jwks'' True"
    "VerifyAudience lib cs ''vault-api'' True"
    using doc c(2,5,6) unfolding documented_checks_def by auto
  moreover have "\<not> time_Sub (time_Unix (int64_of_float conv (of_int (t0 div second_ns + 3600))))
      (time_Unix (int64_of_float conv (of_int (t0 div second_ns)))) > Seconds ttl" if "0 < Seconds ttl"
  proof -
    have "int64_of_float conv (of_int i) = i" if "0 \<le> i" "i \<le> max_int64" for i
      using that by (simp add: int64_of_float_def Let_def in_int64_small)
    then have "int64_of_float conv (of_int (t0 div second_ns + 3600)) = t0 div second_ns + 3600"
      "int64_of_float conv (of_int (t0 div second_ns)) = t0 div second_ns"
      using iat(1) t(4) by (simp_all only: max_int64_def)
    moreover have "3600 \<le> ttl" "Seconds ttl = ttl * second_ns"
      using that ttl small(1) [of ttl] by (auto simp: Seconds_def int64_defs)
    ultimately show ?thesis using one_hour [OF iat(1) t(4)] by (simp add: second_ns_def)
  qed
  ultimately show ?thesis
    using c(1,3,4) assms(3) by (simp add: validateStandardClaims_def claim_string_def claim_float_def del: of_int_add)
qed

text \<open>C29: With the variables of the CI environment file, an accepted start admits a CI token with its
  subject and roles for one hour from its creation, and not a second longer: the configured clock
  skew has no effect, because the token library checks the times itself, without leeway. The token
  without roles is refused where the RBAC policy asks for a role.\<close>

theorem ci_tokens_accepted:
  assumes start: "ValidateAuthStartupConfig g = Inr ()" "cfg = jwt_read_settings g" "\<not> EnableTestJWT (jwt_policy cfg)"
    and env: "g ''JWT_ISSUER'' = []" "g ''JWT_REQUIRED_ISSUER'' = ''ci-jwks''"
      "g ''JWT_AUDIENCE'' = []" "g ''JWT_REQUIRED_AUDIENCE'' = ''vault-api''"
    and limits: "''RS256'' \<in> set (jwt_algs cfg)" "jwt_skew cfg \<le> 9223372036"
      "jwt_max_ttl cfg = 0 \<or> 3600 \<le> jwt_max_ttl cfg \<and> jwt_max_ttl cfg \<le> 9223372036"
    and time: "0 \<le> t0" "t0 \<le> now" "t0 div second_ns \<le> 9007199254740992"
    and lib: "documented_parse lib sign jwks (now div second_ns) ''ci-test-key'' (token_claims t0 sub roles)"
      "documented_checks lib"
    and token: "makeToken sign t0 sub roles = Some tok" "extractBearerToken auth = Some tok" "TrimSpace sub \<noteq> []"
  shows "jwt_identity lib conv cfg (Some jwks) now auth =
    (let rs = (case roles of None \<Rightarrow> [] | Some r \<Rightarrow> r)
     in if now div second_ns < t0 div second_ns + 3600 \<and> (RequireRoles (jwt_policy cfg) \<longrightarrow> hasMinimumRBACRoles rs)
        then Some (rs, sub) else None)"
proof -
  note ok = accepted_settings [OF start]
  have iss: "jwt_issuer cfg = ''ci-jwks''" "jwt_audience cfg = [''vault-api'']"
    using start(2) ci_settings [OF env] by simp_all
  have skew: "0 \<le> jwt_skew cfg"
    unfolding start(2) by (simp add: jwt_read_settings_def Let_def parseIntEnvDefault_nonneg)
  let ?cs = "token_claims t0 sub roles" and ?now = "now div second_ns"
  have "map_of ?cs ''nbf'' = None" "map_of ?cs ''iat'' = Some (CNum (of_int (t0 div second_ns)))"
    "map_of ?cs ''exp'' = Some (CNum (of_int (t0 div second_ns + 3600)))"
    by (simp_all add: token_claims_def hour_later)
  moreover have "t0 div second_ns \<le> ?now" using time by (simp add: second_ns_def zdiv_mono1)
  ultimately have parse: "lib_parse lib jwks (jwt_algs cfg) tok =
      (if ?now < t0 div second_ns + 3600
       then Some \<lparr>tok_valid = True, tok_alg = ''RS256'', tok_kid = Some (CStr ''ci-test-key''), tok_claims = wire_claims ?cs\<rparr>
       else None)"
    using lib(1) token(1) limits(1) unfolding documented_parse_def makeToken_def by (simp del: of_int_add)
  note c = ci_claims [OF refl, of t0 sub roles]
  have kid: "TrimSpace ''ci-test-key'' \<noteq> []" by (simp add: TrimSpace_plain plain_def)
  show ?thesis
  proof (cases "?now < t0 div second_ns + 3600")
    case True
    from ci_valid [OF lib(2) refl token(3) skew limits(2) time(1,2) True time(3) limits(3)]
    have "validateStandardClaims lib conv (wire_claims ?cs) (jwt_issuer cfg) (jwt_audience cfg) now
        (Seconds (jwt_skew cfg)) (Seconds (jwt_max_ttl cfg))" by (simp add: iss)
    with True parse kid c(1,7) ok(2) token(2) show ?thesis
      by (simp add: jwt_identity_def jwks_identity_def claim_string_def Let_def)
  next
    case False
    with parse ok(2) token(2) show ?thesis by (simp add: jwt_identity_def jwks_identity_def)
  qed
qed

text \<open>A CI environment under the RBAC policy, and a library that verifies one token.\<close>

definition ci_env :: env where
  "ci_env = env_of [(''ENV'', ''prod''), (''AUTH_POLICY'', ''jwks_rbac''), (''JWKS_URL'', ''u''),
                    (''JWT_REQUIRED_ISSUER'', ''ci-jwks''), (''JWT_REQUIRED_AUDIENCE'', ''vault-api'')]"

definition ci_token :: parsed_token where
  "ci_token = \<lparr>tok_valid = True, tok_alg = ''RS256'', tok_kid = Some (CStr ''ci-test-key''),
               tok_claims = wire_claims (token_claims 0 ''ci-auditor'' (Some [''auditor'']))\<rparr>"

lemma ci_env_ok:
  "ValidateAuthStartupConfig ci_env = Inr ()" "\<not> EnableTestJWT (jwt_policy (jwt_read_settings ci_env))"
  "RequireRoles (jwt_policy (jwt_read_settings ci_env))"
  "jwt_skew (jwt_read_settings ci_env) = 60" "jwt_max_ttl (jwt_read_settings ci_env) = 0"
  "''RS256'' \<in> set (jwt_algs (jwt_read_settings ci_env))"
proof -
  have e: "read_app_env ci_env = ''prod''" "TrimSpace (ci_env ''JWKS_URL'') = ''u''"
    "read_issuer ci_env = ''ci-jwks''" "read_audience ci_env = [''vault-api'']"
    "ToLower (TrimSpace (ci_env ''DEPLOYMENT'')) = []" "parseBoolEnvDefault ci_env ''ALLOW_INSECURE_DEV'' False = False"
    "resolveAuthPolicy ci_env app url =
       \<lparr>Mode = authPolicyJWKSRBAC, Source = ''explicit_auth_policy'', EnableTestJWT = False,
        JWKSRequired = True, EnforceRequiredClaim = True, RequireKid = True, RequireRoles = True\<rparr>" for app url
    by (simp_all add: ci_env_def env_of_def read_app_env_def read_issuer_def read_audience_def
        parseBoolEnvDefault_def parseCSVEnv_def Let_def plain_eval resolveAuthPolicy_def requested_mode_def policy_names)
  then show "ValidateAuthStartupConfig ci_env = Inr ()" "\<not> EnableTestJWT (jwt_policy (jwt_read_settings ci_env))"
    "RequireRoles (jwt_policy (jwt_read_settings ci_env))"
    by (simp_all add: ValidateAuthStartupConfig_def Let_def policy_names)
  have "jwt_algs (jwt_read_settings ci_env) = default_algs"
    by (simp add: jwt_read_settings_def Let_def parseCSVEnvDefault_def parseCSVEnv_def e) (simp add: ci_env_def env_of_def)
  then show "''RS256'' \<in> set (jwt_algs (jwt_read_settings ci_env))" by (simp add: default_algs_def)
  show "jwt_skew (jwt_read_settings ci_env) = 60" "jwt_max_ttl (jwt_read_settings ci_env) = 0"
    by (simp_all add: jwt_read_settings_def Let_def parseIntEnvDefault_def e) (simp_all add: ci_env_def env_of_def)
qed

lemma listed_jwt_lib_checks: "documented_checks (listed_jwt_lib tokens)"
  unfolding documented_checks_def
  by (auto simp: listed_jwt_lib_def claim_float_def claim_string_def)

lemma ci_tokens_accepted_witness:
  "jwt_identity (listed_jwt_lib [(''t'', ci_token)]) (\<lambda>_. 0) (jwt_read_settings ci_env) (Some ()) (60 * second_ns) ''Bearer t''
     = Some ([''auditor''], ''ci-auditor'')"
proof -
  let ?sign = "\<lambda>(_ :: string) (_ :: string) (_ :: claims). Some ''t''"
  have bearer: "extractBearerToken ''Bearer t'' = Some ''t''"
    by (simp add: extractBearerToken_def Let_def TrimSpace_ends TrimSpace_plain plain_def SplitN2_def EqualFold_def)
  have parse: "documented_parse (listed_jwt_lib [(''t'', ci_token)]) ?sign () (60 * second_ns div second_ns) ''ci-test-key''
      (token_claims 0 ''ci-auditor'' (Some [''auditor'']))"
    by (auto simp: documented_parse_def listed_jwt_lib_def ci_token_def token_claims_def second_ns_def)
  have tok: "makeToken ?sign 0 ''ci-auditor'' (Some [''auditor'']) = Some ''t''" by (simp add: makeToken_def)
  have sub: "TrimSpace ''ci-auditor'' \<noteq> []" by (simp add: TrimSpace_plain plain_def)
  have env: "ci_env ''JWT_ISSUER'' = []" "ci_env ''JWT_REQUIRED_ISSUER'' = ''ci-jwks''"
    "ci_env ''JWT_AUDIENCE'' = []" "ci_env ''JWT_REQUIRED_AUDIENCE'' = ''vault-api''"
    by (simp_all add: ci_env_def env_of_def)
  from ci_tokens_accepted [OF ci_env_ok(1) refl ci_env_ok(2) env ci_env_ok(6) _ _ _ _ _ parse listed_jwt_lib_checks tok bearer sub, of "\<lambda>_. 0"]
  show ?thesis by (simp add: ci_env_ok second_ns_def Let_def)
qed

end
