(* ===== verification/Verifier.thy ===== *)
theory Verifier
  imports VaultApi Signer
begin

text \<open>
  The verifier command: \<open>verifier-cli/cmd/verifier/main.go\<close> and \<open>verifier-cli/verifier/crypto.go\<close>, with
  the document that \<open>scripts/drill_restore.sh\<close> assembles for it, and the signed tree heads of
  \<open>merkle-engine/src/checkpoint.rs\<close> that \<open>VerifySTH\<close> checks. The file system is the pair of
  \<open>readfile\<close> (no value: the file cannot be read) and \<open>writable\<close>.
\<close>

subsection \<open>Slices that are decoded more than once\<close>

text \<open>When a key is repeated, \<open>encoding/json\<close> decodes into the elements the slice had before, also those
  behind its length that its backing array still holds.\<close>

record 'a slice =
  backing :: "'a list"
  slice_len :: nat

definition nil :: "'a slice" where
  "nil = \<lparr>backing = [], slice_len = 0\<rparr>"

definition elems :: "'a slice \<Rightarrow> 'a list" where
  "elems s = take (slice_len s) (backing s)"

fun into_elems :: "(json \<Rightarrow> 'a \<Rightarrow> 'a option) \<Rightarrow> 'a \<Rightarrow> json list \<Rightarrow> 'a list \<Rightarrow> 'a list option" where
  "into_elems f zero [] old = Some old"
| "into_elems f zero (v # vs) [] =
     Option.bind (f v zero) (\<lambda>x. map_option ((#) x) (into_elems f zero vs []))"
| "into_elems f zero (v # vs) (y # old) =
     Option.bind (f v y) (\<lambda>x. map_option ((#) x) (into_elems f zero vs old))"

definition into_slice_over :: "(json \<Rightarrow> 'a \<Rightarrow> 'a option) \<Rightarrow> 'a \<Rightarrow> json \<Rightarrow> 'a slice \<Rightarrow> 'a slice option" where
  "into_slice_over f zero v s =
     (case v of
        JArr [] \<Rightarrow> Some nil
      | JArr vs \<Rightarrow> map_option (\<lambda>xs. \<lparr>backing = xs, slice_len = length vs\<rparr>) (into_elems f zero vs (backing s))
      | JNull \<Rightarrow> Some nil
      | _ \<Rightarrow> None)"

subsection \<open>The drill document\<close>

record drill_proof =
  dp_id :: string
  dp_http_code :: int
  dp_root :: string

record drill_state =
  dr_tree_size :: int
  dr_root_hash :: string
  dr_verified :: bool
  dr_proofs :: "drill_proof slice"

record drillInput =
  expected_root :: string
  drill_before :: drill_state
  drill_after :: drill_state

definition zero_state :: drill_state where
  "zero_state = \<lparr>dr_tree_size = 0, dr_root_hash = [], dr_verified = False, dr_proofs = nil\<rparr>"

definition zero_drill :: drillInput where
  "zero_drill = \<lparr>expected_root = [], drill_before = zero_state, drill_after = zero_state\<rparr>"

definition drill_checkpoint_field :: "string \<Rightarrow> json \<Rightarrow> drill_state \<Rightarrow> drill_state option" where
  "drill_checkpoint_field k v d =
     (if same_field ''tree_size'' k then map_option (\<lambda>n. d\<lparr>dr_tree_size := n\<rparr>) (into_int64 v (dr_tree_size d))
      else if same_field ''root_hash'' k then map_option (\<lambda>r. d\<lparr>dr_root_hash := r\<rparr>) (into_string v (dr_root_hash d))
      else Some d)"

definition drill_verify_field :: "string \<Rightarrow> json \<Rightarrow> drill_state \<Rightarrow> drill_state option" where
  "drill_verify_field k v d =
     (if same_field ''verified'' k then map_option (\<lambda>b. d\<lparr>dr_verified := b\<rparr>) (into_bool v (dr_verified d))
      else Some d)"

definition drill_proof_field :: "string \<Rightarrow> json \<Rightarrow> drill_proof \<Rightarrow> drill_proof option" where
  "drill_proof_field k v p =
     (if same_field ''id'' k then map_option (\<lambda>i. p\<lparr>dp_id := i\<rparr>) (into_string v (dp_id p))
      else if same_field ''http_code'' k then map_option (\<lambda>c. p\<lparr>dp_http_code := c\<rparr>) (into_int64 v (dp_http_code p))
      else if same_field ''root'' k then map_option (\<lambda>r. p\<lparr>dp_root := r\<rparr>) (into_string v (dp_root p))
      else Some p)"

definition zero_proof :: drill_proof where
  "zero_proof = \<lparr>dp_id = [], dp_http_code = 0, dp_root = []\<rparr>"

definition drill_state_field :: "string \<Rightarrow> json \<Rightarrow> drill_state \<Rightarrow> drill_state option" where
  "drill_state_field k v d =
     (if same_field ''checkpoint'' k then into_struct drill_checkpoint_field v d
      else if same_field ''checkpoint_verify'' k then into_struct drill_verify_field v d
      else if same_field ''proofs'' k
      then map_option (\<lambda>ps. d\<lparr>dr_proofs := ps\<rparr>)
             (into_slice_over (into_struct drill_proof_field) zero_proof v (dr_proofs d))
      else Some d)"

definition drill_field :: "string \<Rightarrow> json \<Rightarrow> drillInput \<Rightarrow> drillInput option" where
  "drill_field k v d =
     (if same_field ''expected_root'' k then map_option (\<lambda>r. d\<lparr>expected_root := r\<rparr>) (into_string v (expected_root d))
      else if same_field ''before'' k
      then map_option (\<lambda>s. d\<lparr>drill_before := s\<rparr>) (into_struct drill_state_field v (drill_before d))
      else if same_field ''after'' k
      then map_option (\<lambda>s. d\<lparr>drill_after := s\<rparr>) (into_struct drill_state_field v (drill_after d))
      else Some d)"

definition decode_drill :: "bytes \<Rightarrow> drillInput option" where
  "decode_drill b = Option.bind (json_parse b) (\<lambda>v. into_struct drill_field v zero_drill)"

subsection \<open>The verdict\<close>

record drillOutput =
  Pass :: bool
  LatestRootMatches :: bool
  CheckpointSignatures :: bool
  SampleProofsVerify :: bool
  Failures :: "string list"

datatype drill_error = ReadDrillInput | ParseDrillInput

text \<open>A loop over proofs that stops at the first bad one.\<close>

fun check_proofs :: "drill_proof list \<Rightarrow> bool \<Rightarrow> bool" where
  "check_proofs [] ok = ok"
| "check_proofs (p # ps) ok = (if dp_http_code p \<noteq> 200 \<or> dp_root p = [] then False else check_proofs ps ok)"

definition proofs_ok :: "drillInput \<Rightarrow> bool" where
  "proofs_ok d =
     (let before = elems (dr_proofs (drill_before d)); after = elems (dr_proofs (drill_after d));
          proofsOK = 0 < length before \<and> 0 < length after
      in if proofsOK then check_proofs after (check_proofs before proofsOK) else proofsOK)"

definition verdict :: "drillInput \<Rightarrow> drillOutput" where
  "verdict d =
     (let root = (expected_root d \<noteq> [] \<and> dr_root_hash (drill_after d) = expected_root d);
          f1 = (if root then [] else [''latest root hash mismatch after restore'']);
          sigs = (dr_verified (drill_before d) \<and> dr_verified (drill_after d));
          f2 = (if sigs then f1 else f1 @ [''checkpoint signature verification failed'']);
          proofs = proofs_ok d;
          f3 = (if proofs then f2 else f2 @ [''sample evidence proof verification failed''])
      in \<lparr>Pass = root \<and> sigs \<and> proofs, LatestRootMatches = root, CheckpointSignatures = sigs,
          SampleProofsVerify = proofs, Failures = f3\<rparr>)"

definition verifyDrill :: "(string \<Rightarrow> bytes option) \<Rightarrow> string \<Rightarrow> drill_error + drillOutput" where
  "verifyDrill readfile p =
     (case readfile p of
        None \<Rightarrow> Inl ReadDrillInput
      | Some b \<Rightarrow> (case decode_drill b of None \<Rightarrow> Inl ParseDrillInput | Some d \<Rightarrow> Inr (verdict d)))"

subsection \<open>The command\<close>

text \<open>\<open>json.MarshalIndent(v, "", "  ")\<close>.\<close>

definition fresh_line :: "nat \<Rightarrow> string" where
  "fresh_line n = CHR 0x0A # concat (replicate n ''  '')"

fun json_indent :: "nat \<Rightarrow> json \<Rightarrow> string"
  and indent_elems :: "nat \<Rightarrow> json list \<Rightarrow> string"
  and indent_members :: "nat \<Rightarrow> (string \<times> json) list \<Rightarrow> string" where
  "json_indent n (JArr (v # vs)) = ''['' @ indent_elems (Suc n) (v # vs) @ fresh_line n @ '']''"
| "json_indent n (JObj (kv # kvs)) = ''{'' @ indent_members (Suc n) (kv # kvs) @ fresh_line n @ ''}''"
| "json_indent n v = json_print v"
| "indent_elems n [] = []"
| "indent_elems n (v # vs) = fresh_line n @ json_indent n v @ (if vs = [] then [] else '','' @ indent_elems n vs)"
| "indent_members n [] = []"
| "indent_members n (kv # kvs) =
     fresh_line n @ quote (fst kv) @ '': '' @ json_indent n (snd kv) @ (if kvs = [] then [] else '','' @ indent_members n kvs)"

definition drill_output_json :: "drillOutput \<Rightarrow> json" where
  "drill_output_json r =
     JObj ([(''pass'', JBool (Pass r)), (''latest_root_matches_expected'', JBool (LatestRootMatches r)),
            (''checkpoint_signatures_verify'', JBool (CheckpointSignatures r)),
            (''sample_proofs_verify'', JBool (SampleProofsVerify r))]
           @ (if Failures r = [] then [] else [(''failures'', JArr (map JStr (Failures r)))]))"

record cli_flags =
  bundle_file :: string
  public_key_file :: string
  drill_input :: string
  output_path :: string

record cli_result =
  exit_code :: int
  stdout :: string
  written :: "(string \<times> bytes) option"

definition verifier_main :: "(string \<Rightarrow> bytes option) \<Rightarrow> (string \<Rightarrow> bool) \<Rightarrow> cli_flags \<Rightarrow> cli_result" where
  "verifier_main readfile writable f =
     (if drill_input f \<noteq> []
      then case verifyDrill readfile (drill_input f) of
             Inl e \<Rightarrow> \<lparr>exit_code = 1, stdout = [], written = None\<rparr>
           | Inr r \<Rightarrow>
               (let b = json_indent 0 (drill_output_json r); out = output_path f
                in if out \<noteq> [] \<and> \<not> writable out then \<lparr>exit_code = 1, stdout = [], written = None\<rparr>
                   else \<lparr>exit_code = (if Pass r then 0 else 1), stdout = b @ [CHR 0x0A],
                         written = (if out \<noteq> [] then Some (out, b) else None)\<rparr>)
      else if bundle_file f = [] \<or> public_key_file f = [] then \<lparr>exit_code = 2, stdout = [], written = None\<rparr>
      else \<lparr>exit_code = 0,
            stdout = ''verifying '' @ bundle_file f @ '' with key '' @ public_key_file f @ '' (stub)'' @ [CHR 0x0A],
            written = None\<rparr>)"

subsection \<open>What a passing drill means\<close>

lemma check_proofs_iff:
  "check_proofs ps ok \<longleftrightarrow> ok \<and> (\<forall>p \<in> set ps. dp_http_code p = 200 \<and> dp_root p \<noteq> [])"
  by (induction ps ok rule: check_proofs.induct) auto

lemma proofs_ok_iff:
  "proofs_ok d \<longleftrightarrow>
     elems (dr_proofs (drill_before d)) \<noteq> [] \<and> elems (dr_proofs (drill_after d)) \<noteq> []
     \<and> (\<forall>p \<in> set (elems (dr_proofs (drill_before d))) \<union> set (elems (dr_proofs (drill_after d))).
          dp_http_code p = 200 \<and> dp_root p \<noteq> [])"
  by (auto simp: proofs_ok_def Let_def check_proofs_iff)

lemma verdict_pass: "Pass (verdict d) \<longleftrightarrow> Failures (verdict d) = []"
  by (simp add: verdict_def Let_def)

text \<open>C26: In drill mode the command succeeds exactly when the document can be read and parsed, names
  a root that the restored vault still reports, both checkpoints were verified, both sides have
  proofs and all of them were answered with 200 and a root, and the output file, if one is asked
  for, can be written; what is written is the verdict, which lists a failure unless it passes.\<close>

theorem drill_exit:
  assumes "drill_input f \<noteq> []"
  shows "(exit_code (verifier_main readfile writable f) = 0 \<longleftrightarrow>
      (\<exists>b d. readfile (drill_input f) = Some b \<and> decode_drill b = Some d
         \<and> expected_root d \<noteq> [] \<and> dr_root_hash (drill_after d) = expected_root d
         \<and> dr_verified (drill_before d) \<and> dr_verified (drill_after d)
         \<and> elems (dr_proofs (drill_before d)) \<noteq> [] \<and> elems (dr_proofs (drill_after d)) \<noteq> []
         \<and> (\<forall>p \<in> set (elems (dr_proofs (drill_before d))) \<union> set (elems (dr_proofs (drill_after d))).
              dp_http_code p = 200 \<and> dp_root p \<noteq> [])
         \<and> (output_path f \<noteq> [] \<longrightarrow> writable (output_path f))))
    \<and> (\<forall>p b. written (verifier_main readfile writable f) = Some (p, b) \<longrightarrow>
         p = output_path f \<and> (\<exists>r. verifyDrill readfile (drill_input f) = Inr r \<and> b = json_indent 0 (drill_output_json r)
           \<and> (Failures r = [] \<longleftrightarrow> exit_code (verifier_main readfile writable f) = 0)))"
proof (cases "readfile (drill_input f)")
  case None
  with assms show ?thesis by (simp add: verifier_main_def verifyDrill_def)
next
  case b: (Some b)
  show ?thesis
  proof (cases "decode_drill b")
    case None
    with assms b show ?thesis by (simp add: verifier_main_def verifyDrill_def)
  next
    case (Some d)
    have "Pass (verdict d) \<longleftrightarrow> expected_root d \<noteq> [] \<and> dr_root_hash (drill_after d) = expected_root d
         \<and> dr_verified (drill_before d) \<and> dr_verified (drill_after d) \<and> proofs_ok d"
      by (auto simp: verdict_def Let_def)
    with assms b Some show ?thesis
      by (auto simp: verifier_main_def verifyDrill_def Let_def verdict_pass [symmetric] proofs_ok_iff [symmetric])
  qed
qed

text \<open>The exit code is 0, 1 or 2, and 2 exactly without any input; with a bundle instead of a
  drill document it is always 0, whatever the files are: nothing is read and nothing verified.\<close>

lemma bundle_not_verified:
  "exit_code (verifier_main readfile writable f) \<in> {0, 1, 2}
   \<and> (exit_code (verifier_main readfile writable f) = 2 \<longleftrightarrow>
        drill_input f = [] \<and> (bundle_file f = [] \<or> public_key_file f = []))
   \<and> (drill_input f = [] \<longrightarrow> bundle_file f \<noteq> [] \<longrightarrow> public_key_file f \<noteq> [] \<longrightarrow>
        exit_code (verifier_main readfile writable f) = 0)
   \<and> (drill_input f = [] \<longrightarrow> verifier_main readfile writable f = verifier_main readfile' writable' f)"
  by (auto simp: verifier_main_def Let_def split: sum.splits)

lemma bundle_not_verified_witness:
  "exit_code (verifier_main (\<lambda>_. None) (\<lambda>_. False)
     \<lparr>bundle_file = ''a.evb'', public_key_file = ''k'', drill_input = [], output_path = []\<rparr>) = 0"
  using bundle_not_verified [of "\<lambda>_. None" "\<lambda>_. False"
    "\<lparr>bundle_file = ''a.evb'', public_key_file = ''k'', drill_input = [], output_path = []\<rparr>"] by simp

subsection \<open>The document of the restore drill\<close>

text \<open>\<open>dict.get\<close> of Python, on a dictionary read from JSON.\<close>

definition json_get :: "string \<Rightarrow> json \<Rightarrow> json \<Rightarrow> json" where
  "json_get k d v =
     (case v of JObj kvs \<Rightarrow> (case map_of (rev kvs) k of None \<Rightarrow> d | Some w \<Rightarrow> w) | _ \<Rightarrow> d)"

definition proof_json :: "string \<times> int \<times> string \<Rightarrow> json" where
  "proof_json = (\<lambda>(i, c, r). JObj [(''id'', JStr i), (''http_code'', jint c), (''root'', JStr r)])"

definition drill_side :: "json \<Rightarrow> json \<Rightarrow> (string \<times> int \<times> string) list \<Rightarrow> json" where
  "drill_side cp v ps =
     JObj [(''checkpoint'', cp), (''checkpoint_verify'', v), (''proofs'', JArr (map proof_json ps))]"

definition drill_document ::
    "json \<Rightarrow> json \<Rightarrow> (string \<times> int \<times> string) list \<Rightarrow> json \<Rightarrow> json \<Rightarrow> (string \<times> int \<times> string) list \<Rightarrow> json" where
  "drill_document cp v ps cp' v' ps' =
     JObj [(''expected_root'', json_get ''root_hash'' (JStr []) cp),
           (''before'', drill_side cp v ps), (''after'', drill_side cp' v' ps')]"

lemma decode_checkpoint:
  assumes "in_int64 (cp_tree_size cp)"
  shows "into_struct drill_checkpoint_field (checkpoint_json cp) d
    = Some (d\<lparr>dr_tree_size := cp_tree_size cp, dr_root_hash := cp_root_hash cp\<rparr>)"
  using assms
  by (simp add: checkpoint_json_def into_struct_def drill_checkpoint_field_def jint_def ParseInt64_FormatInt field_eval)

lemma checkpoint_root [simp]: "json_get ''root_hash'' e (checkpoint_json cp) = JStr (cp_root_hash cp)"
  by (simp add: json_get_def checkpoint_json_def)

definition to_proof :: "string \<times> int \<times> string \<Rightarrow> drill_proof" where
  "to_proof = (\<lambda>(i, c, r). \<lparr>dp_id = i, dp_http_code = c, dp_root = r\<rparr>)"

lemma decode_proof: "in_int64 (fst (snd p)) \<Longrightarrow> into_struct drill_proof_field (proof_json p) zero_proof = Some (to_proof p)"
  by (cases p) (simp add: proof_json_def into_struct_def drill_proof_field_def to_proof_def zero_proof_def jint_def
      ParseInt64_FormatInt field_eval)

lemma decode_proofs:
  assumes "\<forall>p \<in> set ps. in_int64 (fst (snd p))"
  shows "into_slice_over (into_struct drill_proof_field) zero_proof (JArr (map proof_json ps)) nil
    = Some \<lparr>backing = map to_proof ps, slice_len = length ps\<rparr>"
proof -
  have "into_elems (into_struct drill_proof_field) zero_proof (map proof_json ps) [] = Some (map to_proof ps)"
    using assms by (induction ps) (simp_all add: decode_proof)
  then show ?thesis by (cases ps) (simp_all add: into_slice_over_def nil_def)
qed

text \<open>What the script's \<open>get\<close> returns for the latest checkpoint of a vault: the body of a positive
  answer, and an empty dictionary when the request fails (no connection, or a status of refusal).\<close>

definition fetched_checkpoint ::
    "bool \<Rightarrow> env \<Rightarrow> (string \<Rightarrow> string \<Rightarrow> (int \<times> string) option) \<Rightarrow> request_context \<Rightarrow> vault \<Rightarrow> checkpointResponse option" where
  "fetched_checkpoint reachable getenv post ctx s =
     (if reachable
      then (case snd (buildLatestCheckpoint getenv post ctx s) of Inl _ \<Rightarrow> None | Inr cp \<Rightarrow> Some cp)
      else None)"

definition fetched_json :: "checkpointResponse option \<Rightarrow> json" where
  "fetched_json x = (case x of None \<Rightarrow> JObj [] | Some cp \<Rightarrow> checkpoint_json cp)"

definition fetched_root :: "checkpointResponse option \<Rightarrow> string" where
  "fetched_root x = (case x of None \<Rightarrow> [] | Some cp \<Rightarrow> cp_root_hash cp)"

definition fetched_size :: "checkpointResponse option \<Rightarrow> int" where
  "fetched_size x = (case x of None \<Rightarrow> 0 | Some cp \<Rightarrow> cp_tree_size cp)"

text \<open>What a verification answer decodes to; an empty dictionary to no verdict.\<close>

definition verdict_json :: "json \<Rightarrow> bool \<Rightarrow> bool" where
  "verdict_json v ok \<longleftrightarrow>
     (\<forall>d. \<not> dr_verified d \<longrightarrow> into_struct drill_verify_field v d = Some (d\<lparr>dr_verified := ok\<rparr>))"

lemma decode_side:
  assumes "in_int64 (fetched_size x)" "\<forall>p \<in> set ps. in_int64 (fst (snd p))" "verdict_json v ok"
  shows "into_struct drill_state_field (drill_side (fetched_json x) v ps) zero_state
    = Some \<lparr>dr_tree_size = fetched_size x, dr_root_hash = fetched_root x, dr_verified = ok,
            dr_proofs = \<lparr>backing = map to_proof ps, slice_len = length ps\<rparr>\<rparr>"
proof -
  have "into_struct drill_checkpoint_field (fetched_json x) zero_state
      = Some (zero_state\<lparr>dr_tree_size := fetched_size x, dr_root_hash := fetched_root x\<rparr>)"
    using assms(1) by (cases x) (simp_all add: fetched_json_def fetched_size_def fetched_root_def decode_checkpoint,
        simp add: into_struct_def zero_state_def)
  then show ?thesis
    using assms(2,3)
    by (simp add: into_struct_def [of drill_state_field] drill_side_def drill_state_field_def verdict_json_def
        decode_proofs zero_state_def field_eval)
qed

lemma decode_document:
  assumes "in_int64 (fetched_size x)" "\<forall>p \<in> set ps. in_int64 (fst (snd p))" "verdict_json v ok"
    and "in_int64 (fetched_size x')" "\<forall>p \<in> set ps'. in_int64 (fst (snd p))" "verdict_json v' ok'"
    and "json_parse b = Some (drill_document (fetched_json x) v ps (fetched_json x') v' ps')"
  obtains d where "decode_drill b = Some d" "expected_root d = fetched_root x"
    "dr_root_hash (drill_after d) = fetched_root x'"
    "dr_verified (drill_before d) = ok" "dr_verified (drill_after d) = ok'"
    "elems (dr_proofs (drill_before d)) = map to_proof ps" "elems (dr_proofs (drill_after d)) = map to_proof ps'"
proof
  let ?side = "\<lambda>x ps ok. \<lparr>dr_tree_size = fetched_size x, dr_root_hash = fetched_root x, dr_verified = ok,
            dr_proofs = \<lparr>backing = map to_proof ps, slice_len = length ps\<rparr>\<rparr>"
  let ?d = "\<lparr>expected_root = fetched_root x, drill_before = ?side x ps ok, drill_after = ?side x' ps' ok'\<rparr>"
  have "json_get ''root_hash'' (JStr []) (fetched_json x) = JStr (fetched_root x)"
    by (cases x) (simp_all add: fetched_json_def fetched_root_def, simp add: json_get_def)
  then show "decode_drill b = Some ?d"
    using decode_side [OF assms(1-3)] decode_side [OF assms(4-6)] assms(7)
    by (simp add: decode_drill_def into_struct_def [of drill_field] drill_document_def drill_field_def
        zero_drill_def field_eval)
qed (simp_all add: elems_def)

lemma built_checkpoint:
  assumes "vault_inv s" "snd (buildLatestCheckpoint getenv post ctx s) = Inr cp"
  shows "cp_root_hash cp = zero_root \<and> in_int64 (cp_tree_size cp)"
proof (cases "published (current_tree_size s) s")
  case None
  with assms(2) have "cp = sign_checkpoint getenv post (current_tree_size s)"
    by (simp add: buildLatestCheckpoint_def Let_def split: if_splits)
  moreover have "in_int64 (current_tree_size s)"
    by (simp add: current_tree_size_def Let_def) (simp add: int64_defs)
  ultimately show ?thesis by simp
next
  case (Some q)
  with assms(2) have "q = cp" by (simp add: buildLatestCheckpoint_def Let_def split: if_splits)
  with Some assms(1) have "cp_root_hash cp = zero_root" "0 < cp_tree_size cp" "cp_tree_size cp \<le> next_index s" "next_index s < max_int64"
    by (auto simp: published_def vault_inv_def)
  then show ?thesis by (simp add: int64_defs)
qed

text \<open>The answers of the vault's verification endpoint decode to their verdict.\<close>

lemma vault_verdict_decodes:
  "into_struct drill_verify_field
     (jmap [(''verified'', JBool ok), (''tree_size'', jint n), (''root_hash'', JStr r), (''signature'', JStr sig), (''key_ref'', JStr ref)]) d
     = Some (d\<lparr>dr_verified := ok\<rparr>)"
  "into_struct drill_verify_field (jmap [(''verified'', JBool ok), (''reason'', JStr why)]) d = Some (d\<lparr>dr_verified := ok\<rparr>)"
  by (simp_all add: jmap_def less_list_code into_struct_def drill_verify_field_def field_eval)

lemma good_proofs:
  "(\<forall>p \<in> to_proof ` A. dp_http_code p = 200 \<and> dp_root p \<noteq> []) \<longleftrightarrow> (\<forall>(i, c, h) \<in> A. c = 200 \<and> h \<noteq> [])"
  by (auto simp: to_proof_def)

lemma fetched_iff:
  assumes "vault_inv s"
  shows "fetched_checkpoint up getenv post ctx s \<noteq> None \<longleftrightarrow> up \<and> hasCheckpointAccess ctx \<and> 0 < next_index s"
    and "in_int64 (fetched_size (fetched_checkpoint up getenv post ctx s))"
    and "fetched_root (fetched_checkpoint up getenv post ctx s)
      = (if up \<and> hasCheckpointAccess ctx \<and> 0 < next_index s then zero_root else [])"
proof -
  let ?x = "fetched_checkpoint up getenv post ctx s"
  have size: "current_tree_size s = next_index s" "0 \<le> next_index s"
    using assms current_tree_size_next by (simp_all add: vault_inv_def mem_inv_def)
  then show iff: "?x \<noteq> None \<longleftrightarrow> up \<and> hasCheckpointAccess ctx \<and> 0 < next_index s"
    by (auto simp: fetched_checkpoint_def buildLatestCheckpoint_def Let_def split: option.split)
  have some: "cp_root_hash cp = zero_root \<and> in_int64 (cp_tree_size cp)" if "?x = Some cp" for cp
    using that built_checkpoint [OF assms, of getenv post ctx cp]
    by (auto simp: fetched_checkpoint_def split: if_splits sum.splits)
  show "in_int64 (fetched_size ?x)" using some by (cases ?x) (simp_all add: fetched_size_def, simp add: int64_defs)
  show "fetched_root ?x = (if up \<and> hasCheckpointAccess ctx \<and> 0 < next_index s then zero_root else [])"
    using some iff by (cases ?x) (auto simp: fetched_root_def)
qed

text \<open>C27: What the root comparison of the drill tells. The script asks two vaults for their latest
  checkpoint and the document holds what came back, nothing when a request failed. The comparison
  succeeds exactly when both vaults could be reached with a role that may see checkpoints, and each
  had at least one leaf; it fails when one of them has none. It does not depend on which
  records they hold or on how many: a restored vault with one leaf, of whatever record, has the
  expected root. Beyond that, the drill passes by the reported verification results and the status
  codes and nonempty roots of the sample proofs.\<close>

theorem drill_root_blind:
  assumes "readfile p = Some b"
    and "json_parse b = Some (drill_document (fetched_json (fetched_checkpoint up getenv post ctx s)) v ps
           (fetched_json (fetched_checkpoint up' getenv' post' ctx' s')) v' ps')"
    and "vault_inv s" "vault_inv s'" "verdict_json v ok" "verdict_json v' ok'"
    and "\<forall>q \<in> set ps \<union> set ps'. in_int64 (fst (snd q))"
  shows "\<exists>r. verifyDrill readfile p = Inr r
    \<and> (LatestRootMatches r \<longleftrightarrow>
         (up \<and> hasCheckpointAccess ctx \<and> 0 < next_index s) \<and> (up' \<and> hasCheckpointAccess ctx' \<and> 0 < next_index s'))
    \<and> (Pass r \<longleftrightarrow> LatestRootMatches r \<and> ok \<and> ok' \<and> ps \<noteq> [] \<and> ps' \<noteq> []
         \<and> (\<forall>(i, c, h) \<in> set ps \<union> set ps'. c = 200 \<and> h \<noteq> []))"
proof -
  let ?x = "fetched_checkpoint up getenv post ctx s" and ?x' = "fetched_checkpoint up' getenv' post' ctx' s'"
  note x = fetched_iff [OF assms(3), of up getenv post ctx] and x' = fetched_iff [OF assms(4), of up' getenv' post' ctx']
  have codes: "\<forall>q \<in> set ps. in_int64 (fst (snd q))" "\<forall>q \<in> set ps'. in_int64 (fst (snd q))" using assms(7) by auto
  obtain d where d: "decode_drill b = Some d" "expected_root d = fetched_root ?x" "dr_root_hash (drill_after d) = fetched_root ?x'"
    "dr_verified (drill_before d) = ok" "dr_verified (drill_after d) = ok'"
    "elems (dr_proofs (drill_before d)) = map to_proof ps" "elems (dr_proofs (drill_after d)) = map to_proof ps'"
    by (rule decode_document [OF x(2) codes(1) assms(5) x'(2) codes(2) assms(6,2)])
  have "zero_root \<noteq> []" by (simp add: zero_root_replicate)
  then have "LatestRootMatches (verdict d) \<longleftrightarrow>
      (up \<and> hasCheckpointAccess ctx \<and> 0 < next_index s) \<and> (up' \<and> hasCheckpointAccess ctx' \<and> 0 < next_index s')"
    unfolding verdict_def Let_def d(2,3) x(3) x'(3) by auto
  moreover have "Pass (verdict d) \<longleftrightarrow> LatestRootMatches (verdict d) \<and> ok \<and> ok' \<and> proofs_ok d"
    using d(4,5) by (simp add: verdict_def Let_def)
  moreover have "verifyDrill readfile p = Inr (verdict d)" using assms(1) d(1) by (simp add: verifyDrill_def)
  moreover have "proofs_ok d \<longleftrightarrow> ps \<noteq> [] \<and> ps' \<noteq> [] \<and> (\<forall>(i, c, h) \<in> set ps \<union> set ps'. c = 200 \<and> h \<noteq> [])"
    unfolding proofs_ok_iff d(6,7) by (simp only: set_map ball_Un good_proofs map_is_Nil_conv)
  ultimately show ?thesis by blast
qed

text \<open>Drills with a vault of two records before. After the restore the vault has one of them, or none.\<close>

definition demo_fetch :: "vault \<Rightarrow> checkpointResponse option" where
  "demo_fetch = fetched_checkpoint True (\<lambda>_. []) (\<lambda>_ _. None) auditor_ctx"

definition demo_document :: "vault \<Rightarrow> vault \<Rightarrow> json" where
  "demo_document s s' =
     drill_document (fetched_json (demo_fetch s)) (JObj [(''verified'', JBool True)]) [(''a'', 200, zero_root)]
                    (fetched_json (demo_fetch s')) (JObj [(''verified'', JBool True)]) [(''a'', 200, zero_root)]"

lemma demo_verified: "verdict_json (JObj [(''verified'', JBool True)]) True"
  by (simp add: verdict_json_def into_struct_def drill_verify_field_def field_eval)

lemma two_leaves_inv: "vault_inv two_leaves"
  unfolding two_leaves_def
  by (intro inv_intros one_leaf_inv) (simp_all add: one_leaf_eval max_int64_def)

lemma demo_fetched:
  "demo_fetch two_leaves = Some (sign_checkpoint (\<lambda>_. []) (\<lambda>_ _. None) 2)"
  "demo_fetch one_leaf = Some (sign_checkpoint (\<lambda>_. []) (\<lambda>_ _. None) 1)"
  "demo_fetch initial_vault = None"
proof -
  have "published n two_leaves = None" "published n one_leaf = None" for n
    by (simp_all add: published_def two_leaves_eval one_leaf_eval)
  moreover have "hasCheckpointAccess auditor_ctx" by (simp add: hasCheckpointAccess_def auditor_ctx_def)
  moreover have "current_tree_size initial_vault = 0"
    by (simp add: initial_vault_def current_tree_size_def max_leaf_index_def)
  ultimately show "demo_fetch two_leaves = Some (sign_checkpoint (\<lambda>_. []) (\<lambda>_ _. None) 2)"
    "demo_fetch one_leaf = Some (sign_checkpoint (\<lambda>_. []) (\<lambda>_ _. None) 1)" "demo_fetch initial_vault = None"
    by (simp_all add: demo_fetch_def fetched_checkpoint_def buildLatestCheckpoint_def Let_def)
qed

lemma demo_json:
  assumes "n \<in> {1, 2}"
  shows "json_wf (fetched_json (Some (sign_checkpoint (\<lambda>_. []) (\<lambda>_ _. None) n)))"
    "json_depth (fetched_json (Some (sign_checkpoint (\<lambda>_. []) (\<lambda>_ _. None) n))) \<le> 2"
proof -
  let ?cp = "sign_checkpoint (\<lambda>_. []) (\<lambda>_ _. None) n"
  have "cp_signature ?cp = Repeat ''a'' 64" "cp_key_ref ?cp = ''local:dev-default''"
    by (simp_all add: sign_checkpoint_def Let_def nonempty_or_def)
  moreover have "valid_utf8 (Repeat ''a'' 64)" by (rule valid_utf8_ascii) (auto simp: Repeat_def)
  moreover have "valid_utf8 zero_root" by (simp add: zero_root_replicate valid_utf8_ascii)
  ultimately show "json_wf (fetched_json (Some ?cp))"
    by (simp add: fetched_json_def checkpoint_json_def jint_def valid_utf8_ascii)
  show "json_depth (fetched_json (Some ?cp)) \<le> 2"
    by (simp add: fetched_json_def checkpoint_json_def jint_def)
qed

lemma demo_document_parse:
  assumes "s \<in> {one_leaf, two_leaves}" "s' \<in> {initial_vault, one_leaf, two_leaves}"
  shows "json_parse (json_print (demo_document s s')) = Some (demo_document s s')"
proof (rule json_roundtrip)
  have zero: "valid_utf8 zero_root" by (simp add: zero_root_replicate valid_utf8_ascii)
  have cp: "json_wf (fetched_json (demo_fetch t)) \<and> json_depth (fetched_json (demo_fetch t)) \<le> 2"
    if "t \<in> {initial_vault, one_leaf, two_leaves}" for t
  proof -
    have "fetched_json None = JObj []" by (simp add: fetched_json_def)
    then show ?thesis using that demo_json [of 1] demo_json [of 2] demo_fetched by auto
  qed
  have cps: "json_wf (fetched_json (demo_fetch s))" "json_depth (fetched_json (demo_fetch s)) \<le> 2"
    "json_wf (fetched_json (demo_fetch s'))" "json_depth (fetched_json (demo_fetch s')) \<le> 2"
    using cp [of s] cp [of s'] assms by blast+
  have "json_get ''root_hash'' (JStr []) (fetched_json (demo_fetch s)) = JStr zero_root"
    using assms(1) by (auto simp: demo_fetched fetched_json_def)
  then show "json_wf (demo_document s s')" "json_depth (demo_document s s') \<le> max_depth"
    using cps zero
    by (simp_all add: demo_document_def drill_document_def drill_side_def proof_json_def jint_def
        valid_utf8_ascii max_depth_def)
qed

lemma drill_root_blind_witness:
  "(\<exists>r. verifyDrill (\<lambda>_. Some (json_print (demo_document two_leaves one_leaf))) ''drill.json'' = Inr r \<and> LatestRootMatches r \<and> Pass r)
   \<and> (\<exists>r. verifyDrill (\<lambda>_. Some (json_print (demo_document two_leaves initial_vault))) ''drill.json'' = Inr r
        \<and> \<not> LatestRootMatches r)"
proof -
  have sizes: "next_index two_leaves = 2" "next_index one_leaf = 1" "next_index initial_vault = 0"
    by (simp_all add: two_leaves_eval one_leaf_eval initial_vault_def)
  have role: "hasCheckpointAccess auditor_ctx" by (simp add: hasCheckpointAccess_def auditor_ctx_def)
  have zero: "zero_root \<noteq> []" by (simp add: zero_root_replicate)
  have fact: "\<exists>r. verifyDrill (\<lambda>_. Some (json_print (demo_document two_leaves s'))) ''drill.json'' = Inr r
      \<and> (LatestRootMatches r \<longleftrightarrow> 0 < next_index s') \<and> (Pass r \<longleftrightarrow> LatestRootMatches r)"
    if "s' \<in> {initial_vault, one_leaf}" for s'
  proof -
    have "json_parse (json_print (demo_document two_leaves s')) = Some (demo_document two_leaves s')"
      by (rule demo_document_parse) (use that in auto)
    then have parse: "json_parse (json_print (demo_document two_leaves s')) = Some (drill_document
        (fetched_json (fetched_checkpoint True (\<lambda>_. []) (\<lambda>_ _. None) auditor_ctx two_leaves)) (JObj [(''verified'', JBool True)]) [(''a'', 200, zero_root)]
        (fetched_json (fetched_checkpoint True (\<lambda>_. []) (\<lambda>_ _. None) auditor_ctx s')) (JObj [(''verified'', JBool True)]) [(''a'', 200, zero_root)])"
      by (simp only: demo_document_def demo_fetch_def)
    have "vault_inv s'" using that one_leaf_inv by auto
    from drill_root_blind [where readfile = "\<lambda>_. Some (json_print (demo_document two_leaves s'))" and p = "''drill.json''",
        OF refl parse two_leaves_inv this demo_verified demo_verified]
    show ?thesis using role zero sizes(1) by (simp add: int64_defs)
  qed
  show ?thesis using fact [of one_leaf] fact [of initial_vault] sizes by auto
qed

lemma demo_decoded:
  obtains d where "decode_drill (json_print (demo_document two_leaves one_leaf)) = Some d"
    "expected_root d = zero_root" "dr_root_hash (drill_after d) = zero_root"
    "dr_verified (drill_before d)" "dr_verified (drill_after d)"
    "elems (dr_proofs (drill_before d)) = [to_proof (''a'', 200, zero_root)]"
    "elems (dr_proofs (drill_after d)) = [to_proof (''a'', 200, zero_root)]"
proof -
  have "json_parse (json_print (demo_document two_leaves one_leaf)) = Some (demo_document two_leaves one_leaf)"
    by (rule demo_document_parse) simp_all
  then have parse: "json_parse (json_print (demo_document two_leaves one_leaf)) =
      Some (drill_document (fetched_json (demo_fetch two_leaves)) (JObj [(''verified'', JBool True)]) [(''a'', 200, zero_root)]
        (fetched_json (demo_fetch one_leaf)) (JObj [(''verified'', JBool True)]) [(''a'', 200, zero_root)])"
    by (simp only: demo_document_def)
  show thesis
    by (rule decode_document [OF _ _ demo_verified _ _ demo_verified parse])
      (use that in \<open>auto simp: demo_fetched fetched_size_def fetched_root_def int64_defs\<close>)
qed

lemma drill_exit_witness:
  "exit_code (verifier_main (\<lambda>_. Some (json_print (demo_document two_leaves one_leaf))) (\<lambda>_. True)
     \<lparr>bundle_file = [], public_key_file = [], drill_input = ''drill.json'', output_path = ''out.json''\<rparr>) = 0"
proof -
  let ?f = "\<lparr>bundle_file = [], public_key_file = [], drill_input = ''drill.json'', output_path = ''out.json''\<rparr>"
  let ?b = "json_print (demo_document two_leaves one_leaf)"
  obtain d where d: "decode_drill ?b = Some d" "expected_root d = zero_root" "dr_root_hash (drill_after d) = zero_root"
    "dr_verified (drill_before d)" "dr_verified (drill_after d)"
    "elems (dr_proofs (drill_before d)) = [to_proof (''a'', 200, zero_root)]" "elems (dr_proofs (drill_after d)) = [to_proof (''a'', 200, zero_root)]"
    by (rule demo_decoded)
  have "drill_input ?f \<noteq> []" by simp
  from drill_exit [OF this, THEN conjunct1] show ?thesis
    by (rule iffD2) (intro exI [of _ ?b] exI [of _ d], use d in \<open>simp add: to_proof_def zero_root_replicate\<close>)
qed

end
