(* ===== verification/Merkle.thy ===== *)
theory Merkle
  imports "HOL-Library.Word" Http
begin

text \<open>
  The Merkle tree of \<open>merkle-engine/src/tree.rs\<close> and \<open>proof.rs\<close>, with the inclusion paths of the Go
  reference in \<open>tests/property/merkle_property_test.go\<close>. SHA-256 is the parameter \<open>sha\<close>. The
  recursion on index ranges is related to the recursion of RFC 6962 on lists (\<open>mth\<close>), which is
  written without any definition of the code; and to the same recursion on 64-bit words. Recursion that
  does not end, and an index out of range, have no value. After the split point come the tree and
  its root (locale \<open>append_log\<close>), the binding of the leaves by the root, and inclusion proofs: sound
  for every index, complete below the split point.
\<close>

subsection \<open>The split point\<close>

text \<open>\<open>while k < n { k <<= 1 }\<close> on \<open>usize\<close>: a bit that is shifted out is lost.\<close>

partial_function (option) pow2_loop :: "64 word \<Rightarrow> 64 word \<Rightarrow> 64 word option" where
  "pow2_loop k n = (if k < n then pow2_loop (push_bit 1 k) n else Some k)"

definition largest_pow2_word :: "64 word \<Rightarrow> 64 word option" where
  "largest_pow2_word n = map_option (drop_bit 1) (pow2_loop 1 n)"

text \<open>The same loop without a width. It stands for the loop of the code up to 2 to the 63 leaves
  (\<open>largest_pow2_word_nat\<close>), a bound that no slice of hashes in memory reaches.\<close>

function pow2_from :: "nat \<Rightarrow> nat \<Rightarrow> nat" where
  "pow2_from k n = (if 0 < k \<and> k < n then pow2_from (2 * k) n else k)"
  by pat_completeness auto
termination by (relation "measure (\<lambda>(k, n). n - k)") auto

declare pow2_from.simps [simp del]

definition largest_pow2 :: "nat \<Rightarrow> nat" where
  "largest_pow2 n = pow2_from 1 n div 2"

lemma pow2_from_bounds:
  assumes "0 < k"
  shows "\<exists>j. pow2_from k n = k * 2 ^ j \<and> n \<le> k * 2 ^ j \<and> (k < n \<longrightarrow> 0 < j \<and> k * 2 ^ j < 2 * n)"
  using assms
proof (induction k n rule: pow2_from.induct)
  case (1 k n)
  show ?case
  proof (cases "k < n")
    case True
    with 1 obtain j where j: "pow2_from (2 * k) n = 2 * k * 2 ^ j" "n \<le> 2 * k * 2 ^ j"
      "2 * k < n \<longrightarrow> 0 < j \<and> 2 * k * 2 ^ j < 2 * n" by auto
    have "2 * k * 2 ^ j < 2 * n"
    proof (cases "2 * k < n")
      case False
      then have "pow2_from (2 * k) n = 2 * k" by (simp add: pow2_from.simps [of "2 * k"])
      with j(1) 1(2) have "2 ^ j = (1::nat)" by (metis mult.right_neutral mult_cancel1 nat_0_less_mult_iff less_numeral_extra(3) zero_less_numeral)
      with True show ?thesis by simp
    qed (use j(3) in simp)
    with True j 1 show ?thesis
      by (intro exI [of _ "Suc j"]) (simp add: pow2_from.simps [of k] mult_ac)
  next
    case False
    then show ?thesis by (intro exI [of _ 0]) (simp add: pow2_from.simps [of k])
  qed
qed

lemma largest_pow2_spec:
  assumes "2 \<le> n"
  obtains j where "largest_pow2 n = 2 ^ j" "2 ^ j < n" "n \<le> 2 * 2 ^ j"
proof -
  obtain j where j: "pow2_from 1 n = 2 ^ j" "n \<le> 2 ^ j" "0 < j" "2 ^ j < 2 * n"
    using pow2_from_bounds [of 1 n] assms by auto
  then obtain i where "j = Suc i" by (cases j) auto
  with j that [of i] show thesis by (simp add: largest_pow2_def)
qed

lemma largest_pow2_range: "2 \<le> n \<Longrightarrow> 0 < largest_pow2 n \<and> largest_pow2 n < n"
  by (erule largest_pow2_spec) simp

lemma largest_pow2_power: "largest_pow2 (2 ^ Suc h) = 2 ^ h"
proof -
  have "2 \<le> (2::nat) ^ Suc h" by simp
  then obtain j where "largest_pow2 (2 ^ Suc h) = 2 ^ j" "(2::nat) ^ j < 2 ^ Suc h" "(2::nat) ^ Suc h \<le> 2 ^ Suc j"
    by (rule largest_pow2_spec) simp
  then show ?thesis by (metis Suc_le_mono less_Suc_eq_le nat_power_less_imp_less one_less_numeral_iff
        order_antisym power_increasing_iff semiring_norm(76) zero_less_numeral)
qed

text \<open>The loop on words.\<close>

lemma pow2_loop_zero: "0 < n \<Longrightarrow> pow2_loop 0 n = None"
proof -
  have "0 < m \<longrightarrow> k \<noteq> 0" if "pow2_loop k m = Some y" for k m y
    using that
  proof (induction k m y rule: pow2_loop.raw_induct [rotated, consumes 1, case_names step])
    case (step f k m y)
    show ?case
    proof (intro impI notI)
      assume m: "0 < m" and k: "k = 0"
      with step(2) have "f 0 m = Some y" by simp
      from step(1) [OF this] m show False by blast
    qed
  qed
  then show "pow2_loop 0 n = None" if "0 < n" using that by (cases "pow2_loop 0 n") auto
qed

lemma unat_push1_mod: "unat (push_bit 1 k :: 64 word) = 2 * unat k mod 2 ^ 64"
proof -
  have "push_bit 1 k = 2 * k" by (simp add: push_bit_eq_mult mult.commute)
  then show ?thesis by (simp only: unat_word_ariths) simp
qed

lemma unat_push1: "unat k < 2 ^ 63 \<Longrightarrow> unat (push_bit 1 k :: 64 word) = 2 * unat k"
  by (subst unat_push1_mod) simp

lemma push1_top: "unat k = 2 ^ 63 \<Longrightarrow> (push_bit 1 k :: 64 word) = 0"
  by (simp only: unsigned_eq_0_iff [symmetric, where 'a = nat] unat_push1_mod) simp

lemma unat_drop1: "unat (drop_bit 1 w :: 64 word) = unat w div 2"
  by (simp add: drop_bit_eq_div unat_div)

lemma pow2_loop_nat:
  assumes "j \<le> 63" "unat k = 2 ^ j" "unat n \<le> 2 ^ 63"
  shows "\<exists>w. pow2_loop k n = Some w \<and> unat w = pow2_from (2 ^ j) (unat n)"
  using assms
proof (induction "63 - j" arbitrary: j k)
  case 0
  then have "j = 63" by simp
  with 0 have "\<not> unat k < unat n" by simp
  moreover from this have "pow2_from (2 ^ j) (unat n) = 2 ^ j"
    using 0 \<open>j = 63\<close> by (subst pow2_from.simps) simp
  ultimately show ?case
    using 0 by (simp only: pow2_loop.simps [of k] word_less_nat_alt if_False) simp
next
  case (Suc d)
  show ?case
  proof (cases "k < n")
    case True
    have "j < 63" using Suc.hyps(2) by simp
    then have "(2::nat) ^ j < 2 ^ 63" by (rule power_strict_increasing) simp
    then have "unat (push_bit 1 k) = 2 ^ Suc j" using Suc.prems by (simp only: unat_push1 power_Suc)
    moreover have "d = 63 - Suc j" "Suc j \<le> 63" using Suc.hyps(2) by simp_all
    ultimately obtain w where "pow2_loop (push_bit 1 k) n = Some w" "unat w = pow2_from (2 ^ Suc j) (unat n)"
      using Suc.hyps(1) Suc.prems(3) by blast
    with True Suc.prems show ?thesis
      by (simp add: pow2_loop.simps [of k] pow2_from.simps [of "2 ^ j"] word_less_nat_alt)
  next
    case False
    with Suc.prems show ?thesis
      by (simp add: pow2_loop.simps [of k] pow2_from.simps [of "2 ^ j"] word_less_nat_alt)
  qed
qed

lemma pow2_loop_diverges:
  assumes "2 ^ 63 < unat n" "j \<le> 63" "unat k = 2 ^ j"
  shows "pow2_loop k n = None"
  using assms
proof (induction "63 - j" arbitrary: j k)
  case 0
  then have j: "unat k = 2 ^ 63" by simp
  with 0(2) have "k < n" by (simp only: word_less_nat_alt)
  moreover have "push_bit 1 k = 0" using j by (rule push1_top)
  moreover have "0 < n" using \<open>k < n\<close> by (metis not_gr_zero word_neq_0_conv word_not_simps(1))
  ultimately show ?case by (simp only: pow2_loop.simps [of k] pow2_loop_zero if_True)
next
  case (Suc d)
  have "j < 63" using Suc.hyps(2) by simp
  then have "(2::nat) ^ j < 2 ^ 63" by (rule power_strict_increasing) simp
  with Suc.prems have "k < n" "unat (push_bit 1 k) = 2 ^ Suc j"
    by (simp_all only: word_less_nat_alt unat_push1 power_Suc less_trans)
  moreover from this(2) have "pow2_loop (push_bit 1 k) n = None"
    using Suc.hyps(1) [of "Suc j" "push_bit 1 k"] Suc.hyps(2) Suc.prems by simp
  ultimately show ?case by (simp only: pow2_loop.simps [of k] if_True)
qed

text \<open>C24: The search for the split point ends for every number of leaves up to 2 to the 63, and
  then returns the largest power of two below it; for more it does not end, because the shifted
  bit falls out of the word.\<close>

theorem split_point_terminates:
  "(unat n \<le> 2 ^ 63 \<longrightarrow> (\<exists>k. largest_pow2_word n = Some k \<and> unat k = largest_pow2 (unat n)
      \<and> (2 \<le> unat n \<longrightarrow> (\<exists>j. unat k = 2 ^ j) \<and> unat k < unat n \<and> unat n \<le> 2 * unat k)))
   \<and> (2 ^ 63 < unat n \<longrightarrow> largest_pow2_word n = None)"
proof (intro conjI impI)
  assume n: "unat n \<le> 2 ^ 63"
  obtain w where w: "pow2_loop 1 n = Some w" "unat w = pow2_from 1 (unat n)"
    using pow2_loop_nat [of 0 1 n] n by auto
  then have "largest_pow2_word n = Some (drop_bit 1 w)" "unat (drop_bit 1 w) = largest_pow2 (unat n)"
    by (simp_all only: largest_pow2_word_def largest_pow2_def option.map unat_drop1)
  moreover have "(\<exists>j. largest_pow2 (unat n) = 2 ^ j) \<and> largest_pow2 (unat n) < unat n \<and> unat n \<le> 2 * largest_pow2 (unat n)"
    if "2 \<le> unat n"
    using that by (rule largest_pow2_spec) auto
  ultimately show "\<exists>k. largest_pow2_word n = Some k \<and> unat k = largest_pow2 (unat n)
      \<and> (2 \<le> unat n \<longrightarrow> (\<exists>j. unat k = 2 ^ j) \<and> unat k < unat n \<and> unat n \<le> 2 * unat k)" by auto
next
  assume "2 ^ 63 < unat n"
  then show "largest_pow2_word n = None"
    using pow2_loop_diverges [of n 0 1] by (simp add: largest_pow2_word_def)
qed

lemma split_point_terminates_witness:
  "(\<exists>k. largest_pow2_word 6 = Some k \<and> unat k = largest_pow2 6) \<and> largest_pow2_word (- 1) = None"
proof -
  have "unat (- 1 :: 64 word) = 2 ^ 64 - 1" by (simp add: unsigned_minus_1_eq_mask mask_eq_exp_minus_1)
  then show ?thesis using split_point_terminates [of 6] split_point_terminates [of "- 1"] by auto
qed

subsection \<open>Hashes and trees\<close>

definition leaf_hash :: "(bytes \<Rightarrow> bytes) \<Rightarrow> bytes \<Rightarrow> bytes" where
  "leaf_hash sha d = sha (byte 0 # d)"

definition node_hash :: "(bytes \<Rightarrow> bytes) \<Rightarrow> bytes \<Rightarrow> bytes \<Rightarrow> bytes" where
  "node_hash sha l r = sha (byte 1 # l @ r)"

text \<open>No value: an index out of range, or a range that is empty and recurs on itself for ever.\<close>

partial_function (option) subtree_hash :: "(bytes \<Rightarrow> bytes) \<Rightarrow> bytes list \<Rightarrow> nat \<Rightarrow> nat \<Rightarrow> bytes option" where
  "subtree_hash sha leaves lo hi =
     (if hi - lo = 1 then (if lo < length leaves then Some (leaves ! lo) else None)
      else (let k = largest_pow2 (hi - lo)
            in Option.bind (subtree_hash sha leaves lo (lo + k))
                 (\<lambda>l. Option.bind (subtree_hash sha leaves (lo + k) hi) (\<lambda>r. Some (node_hash sha l r)))))"

text \<open>The same recursion with the indices and the split point at their width, as the code runs it. The
  natural numbers are used in what follows: the lemma \<open>subtree_hash_word_eq\<close> says that they agree up
  to 2 to the 63 leaves, more than a slice of hashes can have.\<close>

partial_function (option) subtree_hash_word :: "(bytes \<Rightarrow> bytes) \<Rightarrow> bytes list \<Rightarrow> 64 word \<Rightarrow> 64 word \<Rightarrow> bytes option" where
  "subtree_hash_word sha leaves lo hi =
     (if hi - lo = 1 then (if unat lo < length leaves then Some (leaves ! unat lo) else None)
      else Option.bind (largest_pow2_word (hi - lo))
             (\<lambda>k. Option.bind (subtree_hash_word sha leaves lo (lo + k))
                 (\<lambda>l. Option.bind (subtree_hash_word sha leaves (lo + k) hi) (\<lambda>r. Some (node_hash sha l r)))))"

record merkle_tree =
  tree_leaves :: "bytes list"

definition new_tree :: merkle_tree where
  "new_tree = \<lparr>tree_leaves = []\<rparr>"

definition tree_append :: "(bytes \<Rightarrow> bytes) \<Rightarrow> bytes \<Rightarrow> merkle_tree \<Rightarrow> merkle_tree \<times> nat" where
  "tree_append sha d t =
     (let ls = tree_leaves t @ [leaf_hash sha d] in (t\<lparr>tree_leaves := ls\<rparr>, length ls - 1))"

definition tree_root :: "(bytes \<Rightarrow> bytes) \<Rightarrow> merkle_tree \<Rightarrow> string option" where
  "tree_root sha t =
     (if tree_leaves t = [] then Some []
      else map_option hex_encode (subtree_hash sha (tree_leaves t) 0 (length (tree_leaves t))))"

text \<open>The reference, written from RFC 6962, section 2.1, and not from the code: the hash of an empty list
  is the hash of the empty text, a leaf is hashed behind the byte 0, and a longer list is cut at the
  largest power of two smaller than its length, with the two hashes behind the byte 1, left first.\<close>

definition rfc_split :: "nat \<Rightarrow> nat" where
  "rfc_split n = Max (set (filter (\<lambda>k. k < n) (map (\<lambda>j. 2 ^ j) [0 ..< n])))"

lemma rfc_split_eq:
  assumes "2 \<le> n"
  shows "rfc_split n = largest_pow2 n"
proof -
  obtain j where j: "largest_pow2 n = 2 ^ j" "2 ^ j < n" "n \<le> 2 * 2 ^ j"
    using assms by (rule largest_pow2_spec)
  have "j < n" using j(2) less_exp [of j] by (rule less_trans [rotated])
  then have "2 ^ j \<in> set (filter (\<lambda>k. k < n) (map (\<lambda>j. 2 ^ j) [0 ..< n]))" using j(2) by auto
  moreover have "k \<le> 2 ^ j" if "k \<in> set (filter (\<lambda>k. k < n) (map (\<lambda>j. 2 ^ j) [0 ..< n]))" for k
  proof -
    from that obtain i where i: "k = 2 ^ i" "2 ^ i < n" by auto
    with j(3) have "(2::nat) ^ i < 2 ^ Suc j" by simp
    then have "i < Suc j" by (rule power_less_imp_less_exp [rotated]) simp
    with i(1) show ?thesis by (simp add: power_increasing)
  qed
  ultimately have "rfc_split n = 2 ^ j" unfolding rfc_split_def by (intro Max_eqI) auto
  with j(1) show ?thesis by simp
qed

function mth :: "(bytes \<Rightarrow> bytes) \<Rightarrow> bytes list \<Rightarrow> bytes" where
  "mth sha [] = sha []"
| "mth sha [d] = sha (CHR 0x00 # d)"
| "mth sha (d # e # ds) =
     (let k = rfc_split (length (d # e # ds))
      in sha (CHR 0x01 # mth sha (take k (d # e # ds)) @ mth sha (drop k (d # e # ds))))"
  by pat_completeness auto
termination
proof (relation "measure (\<lambda>(sha, ds). length ds)")
  fix sha :: "bytes \<Rightarrow> bytes" and d e :: bytes and ds :: "bytes list" and k
  assume "k = rfc_split (length (d # e # ds))"
  with largest_pow2_range [of "length (d # e # ds)"] have "0 < k" "k < length (d # e # ds)"
    by (simp_all add: rfc_split_eq)
  then show "((sha, take k (d # e # ds)), sha, d # e # ds) \<in> measure (\<lambda>(sha, ds). length ds)"
    and "((sha, drop k (d # e # ds)), sha, d # e # ds) \<in> measure (\<lambda>(sha, ds). length ds)" by auto
qed simp

declare mth.simps(2,3) [simp del]

text \<open>The same equations with the hashes and the split point of the code.\<close>

lemma byte_prefixes: "byte 0 = CHR 0x00" "byte 1 = CHR 0x01"
  by (simp_all add: char_of_eq_iff del: One_nat_def)

lemma mth_single [simp]: "mth sha [d] = leaf_hash sha d"
  by (simp add: mth.simps(2) leaf_hash_def byte_prefixes)

lemma mth_node:
  "mth sha (d # e # ds) =
     (let k = largest_pow2 (Suc (Suc (length ds)))
      in node_hash sha (mth sha (take k (d # e # ds))) (mth sha (drop k (d # e # ds))))"
  by (simp add: mth.simps(3) rfc_split_eq node_hash_def Let_def byte_prefixes del: One_nat_def)

lemmas mth_code = mth.simps(1) mth_single mth_node

lemma mth_split:
  assumes "2 \<le> length ds"
  obtains k where "0 < k" "k < length ds" "k = largest_pow2 (length ds)"
    "mth sha ds = node_hash sha (mth sha (take k ds)) (mth sha (drop k ds))"
proof -
  obtain d e es where ds: "ds = d # e # es" using assms by (cases ds; cases "tl ds") auto
  show thesis
    using that [OF _ _ refl] largest_pow2_range [OF assms] by (simp add: ds mth_node Let_def)
qed

text \<open>The division of a range into its two parts, as an induction rule.\<close>

lemma range_induct [consumes 1, case_names one split]:
  assumes "lo < (hi :: nat)"
    and "\<And>lo. P lo (Suc lo)"
    and "\<And>lo hi k. k = largest_pow2 (hi - lo) \<Longrightarrow> 0 < k \<Longrightarrow> lo + k < hi \<Longrightarrow> P lo (lo + k) \<Longrightarrow> P (lo + k) hi \<Longrightarrow> P lo hi"
  shows "P lo hi"
  using assms(1)
proof (induction "hi - lo" arbitrary: lo hi rule: less_induct)
  case less
  show ?case
  proof (cases "hi - lo = 1")
    case True
    then have "hi = Suc lo" by simp
    then show ?thesis using assms(2) by simp
  next
    case False
    with less.prems have "2 \<le> hi - lo" by simp
    from largest_pow2_range [OF this] have "0 < largest_pow2 (hi - lo)" "lo + largest_pow2 (hi - lo) < hi" by auto
    with assms(3) [OF refl] less.hyps show ?thesis by simp
  qed
qed

abbreviation segment :: "nat \<Rightarrow> nat \<Rightarrow> 'a list \<Rightarrow> 'a list" where
  "segment lo hi xs \<equiv> take (hi - lo) (drop lo xs)"

lemma mth_segment:
  assumes "k = largest_pow2 (hi - lo)" "0 < k" "lo + k < hi" "hi \<le> length ds"
  shows "mth sha (segment lo hi ds) = node_hash sha (mth sha (segment lo (lo + k) ds)) (mth sha (segment (lo + k) hi ds))"
proof -
  have len: "length (segment lo hi ds) = hi - lo" using assms by simp
  then have "2 \<le> length (segment lo hi ds)" using assms by simp
  then have "mth sha (segment lo hi ds)
      = node_hash sha (mth sha (take k (segment lo hi ds))) (mth sha (drop k (segment lo hi ds)))"
    using len assms(1) by (metis mth_split)
  then show ?thesis using assms by (simp add: drop_take min_def add.commute)
qed

lemma subtree_hash_mth:
  assumes "lo < hi" "hi \<le> length ds"
  shows "subtree_hash sha (map (leaf_hash sha) ds) lo hi = Some (mth sha (segment lo hi ds))"
  using assms
proof (induction lo hi rule: range_induct)
  case (one lo)
  then have "segment lo (Suc lo) ds = [ds ! lo]" by (simp add: take_Suc_conv_app_nth Cons_nth_drop_Suc [symmetric])
  with one show ?case by (simp add: subtree_hash.simps)
next
  case (split lo hi k)
  then have "hi - lo \<noteq> 1" "lo + k \<le> length ds" by simp_all
  with split show ?case
    by (simp add: subtree_hash.simps [of _ _ lo hi] Let_def mth_segment [of k] del: One_nat_def)
qed

lemma largest_pow2_word_nat:
  assumes "unat n \<le> 2 ^ 63"
  shows "\<exists>k. largest_pow2_word n = Some k \<and> unat k = largest_pow2 (unat n)"
proof -
  obtain w where "pow2_loop 1 n = Some w" "unat w = pow2_from 1 (unat n)"
    using pow2_loop_nat [of 0 1 n] assms by auto
  then show ?thesis
    by (intro exI [of _ "drop_bit 1 w"]) (simp only: largest_pow2_word_def largest_pow2_def unat_drop1 option.map simp_thms)
qed

lemma subtree_hash_word_eq:
  assumes "lo < hi" "hi \<le> 2 ^ 63"
  shows "subtree_hash_word sha leaves (of_nat lo) (of_nat hi) = subtree_hash sha leaves lo hi"
  using assms
proof (induction lo hi rule: range_induct)
  case (one lo)
  then have "unat (of_nat lo :: 64 word) = lo" by (simp add: unat_of_nat)
  then show ?case by (simp add: subtree_hash_word.simps subtree_hash.simps)
next
  case (split lo hi k)
  let ?w = "of_nat hi - of_nat lo :: 64 word"
  have w: "?w = of_nat (hi - lo)" using split.hyps by simp
  have n: "unat ?w = hi - lo" using split.prems by (simp add: w unat_of_nat)
  then obtain kw where kw: "largest_pow2_word ?w = Some kw" "unat kw = k"
    using largest_pow2_word_nat [of ?w] split.prems split.hyps(1) by fastforce
  have add: "of_nat lo + kw = of_nat (lo + k)" unfolding kw(2) [symmetric] by simp
  have ne: "hi - lo \<noteq> 1" using split.hyps by simp
  then have "?w \<noteq> 1" using n by auto
  then have "subtree_hash_word sha leaves (of_nat lo) (of_nat hi) =
      Option.bind (subtree_hash_word sha leaves (of_nat lo) (of_nat (lo + k)))
        (\<lambda>l. Option.bind (subtree_hash_word sha leaves (of_nat (lo + k)) (of_nat hi)) (\<lambda>r. Some (node_hash sha l r)))"
    using kw(1) by (subst subtree_hash_word.simps) (simp add: add del: of_nat_add)
  moreover have "subtree_hash sha leaves lo hi =
      Option.bind (subtree_hash sha leaves lo (lo + k))
        (\<lambda>l. Option.bind (subtree_hash sha leaves (lo + k) hi) (\<lambda>r. Some (node_hash sha l r)))"
    using ne split.hyps(1) by (subst subtree_hash.simps) (simp add: Let_def del: One_nat_def)
  ultimately show ?case using split by simp
qed

text \<open>Without leaves the recursion of \<open>merkleRoot\<close> in the Go reference does not end.\<close>

lemma subtree_hash_empty: "subtree_hash sha leaves lo lo = None"
proof -
  have "lo \<noteq> hi" if "subtree_hash sha leaves lo hi = Some y" for lo hi y
    using that
  proof (induction sha leaves lo hi y rule: subtree_hash.raw_induct [rotated, consumes 1, case_names step])
    case (step f sha leaves lo hi y)
    show ?case
    proof
      assume "lo = hi"
      moreover have "largest_pow2 0 = 0" by (simp add: largest_pow2_def pow2_from.simps)
      ultimately obtain l where "f sha leaves hi hi = Some l"
        using step(2) by (auto simp: Let_def split: Option.bind_splits)
      from step(1) [OF this] show False by simp
    qed
  qed
  then show ?thesis by (cases "subtree_hash sha leaves lo lo") auto
qed

subsection \<open>An append-only log with a root\<close>

fun append_all :: "(bytes \<Rightarrow> 't \<Rightarrow> 't \<times> nat) \<Rightarrow> bytes list \<Rightarrow> 't \<Rightarrow> 't \<times> nat list" where
  "append_all app [] t = (t, [])"
| "append_all app (d # ds) t =
     (case app d t of (t', i) \<Rightarrow> case append_all app ds t' of (t'', is) \<Rightarrow> (t'', i # is))"

text \<open>What a caller of the interface \<open>merkle.Engine\<close> relies on: an append returns the next position,
  and the root is a function of what was appended. \<open>holds t ds\<close> says that \<open>t\<close> stores \<open>ds\<close>.\<close>

locale append_log =
  fixes holds :: "'t \<Rightarrow> bytes list \<Rightarrow> bool"
    and app :: "bytes \<Rightarrow> 't \<Rightarrow> 't \<times> nat"
    and root_of :: "'t \<Rightarrow> string option"
    and commitment :: "bytes list \<Rightarrow> string"
  assumes append_holds: "holds t ds \<Longrightarrow> holds (fst (app d t)) (ds @ [d])"
    and append_position: "holds t ds \<Longrightarrow> snd (app d t) = length ds"
    and root_commits: "holds t ds \<Longrightarrow> root_of t = Some (commitment ds)"
begin

lemma append_all_holds:
  "holds t ds \<Longrightarrow> holds (fst (append_all app es t)) (ds @ es)
     \<and> snd (append_all app es t) = [length ds ..< length ds + length es]"
proof (induction es arbitrary: t ds)
  case (Cons e es)
  obtain t' i where a: "app e t = (t', i)" by force
  with append_holds [OF Cons.prems, of e] append_position [OF Cons.prems, of e]
  have "holds t' (ds @ [e])" "i = length ds" by simp_all
  with Cons.IH [of t' "ds @ [e]"] a show ?case
    by (simp add: split_beta upt_rec [of "length ds"] del: upt_Suc)
qed simp

lemma append_all_root:
  "holds t ds \<Longrightarrow> root_of (fst (append_all app es t)) = Some (commitment (ds @ es))"
  by (rule root_commits) (simp add: append_all_holds)

end

definition tree_holds :: "(bytes \<Rightarrow> bytes) \<Rightarrow> merkle_tree \<Rightarrow> bytes list \<Rightarrow> bool" where
  "tree_holds sha t ds \<longleftrightarrow> tree_leaves t = map (leaf_hash sha) ds"

definition rfc6962_root :: "(bytes \<Rightarrow> bytes) \<Rightarrow> bytes list \<Rightarrow> string" where
  "rfc6962_root sha ds = (if ds = [] then [] else hex_encode (mth sha ds))"

interpretation mt: append_log "tree_holds sha" "tree_append sha" "tree_root sha" "rfc6962_root sha" for sha
proof
  fix t ds
  assume "tree_holds sha t ds"
  then show "tree_root sha t = Some (rfc6962_root sha ds)"
    by (cases ds) (simp_all add: tree_root_def rfc6962_root_def tree_holds_def subtree_hash_mth del: list.map)
qed (simp_all add: tree_holds_def tree_append_def Let_def)

lemma new_tree_holds: "tree_holds sha new_tree []"
  by (simp add: tree_holds_def new_tree_def)

text \<open>The tree after appending \<open>ds\<close> in order.\<close>

definition log_tree :: "(bytes \<Rightarrow> bytes) \<Rightarrow> bytes list \<Rightarrow> merkle_tree" where
  "log_tree sha ds = fst (append_all (tree_append sha) ds new_tree)"

lemma log_tree_leaves [simp]: "tree_leaves (log_tree sha ds) = map (leaf_hash sha) ds"
  using mt.append_all_holds [OF new_tree_holds, of sha ds] by (simp add: tree_holds_def log_tree_def)

lemma log_tree_root: "tree_root sha (log_tree sha ds) = Some (rfc6962_root sha ds)"
  using mt.append_all_root [OF new_tree_holds, of sha ds] by (simp add: log_tree_def)

text \<open>C11: Appending gives the positions 0, 1, 2, ..., and the root is the hex form of the Merkle tree
  hash of RFC 6962, which \<open>mth\<close> writes down with its own prefixes and split point (the root is the
  empty text without leaves, where the recursion itself would not end); the root of a prefix can be
  recomputed from the leaves of the whole tree; with 64-bit indices the recursion gives the same
  hash for up to 2 to the 63 leaves.\<close>

theorem merkle_root_rfc6962:
  "snd (append_all (tree_append sha) ds new_tree) = [0 ..< length ds]
   \<and> tree_root sha (log_tree sha ds) = Some (if ds = [] then [] else hex_encode (mth sha ds))
   \<and> (\<forall>m. 0 < m \<longrightarrow> m \<le> length ds \<longrightarrow>
        map_option hex_encode (subtree_hash sha (tree_leaves (log_tree sha ds)) 0 m) = tree_root sha (log_tree sha (take m ds)))
   \<and> subtree_hash sha [] 0 0 = None
   \<and> (ds \<noteq> [] \<longrightarrow> length ds \<le> 2 ^ 63 \<longrightarrow>
        subtree_hash_word sha (tree_leaves (log_tree sha ds)) 0 (of_nat (length ds)) = Some (mth sha ds))"
proof -
  have "map_option hex_encode (subtree_hash sha (tree_leaves (log_tree sha ds)) 0 m) = tree_root sha (log_tree sha (take m ds))"
    if "0 < m" "m \<le> length ds" for m
    using that by (auto simp: log_tree_root rfc6962_root_def subtree_hash_mth)
  then show ?thesis
    using mt.append_all_holds [OF new_tree_holds, of sha ds] subtree_hash_word_eq [of 0 "length ds"]
    by (simp add: log_tree_root rfc6962_root_def subtree_hash_empty subtree_hash_mth)
qed

lemma merkle_root_rfc6962_witness:
  "map_option hex_encode (subtree_hash id (tree_leaves (log_tree id [''a'', ''b'', ''c''])) 0 2)
     = tree_root id (log_tree id [''a'', ''b''])
   \<and> subtree_hash_word id (tree_leaves (log_tree id [''a'', ''b'', ''c''])) 0 3
     = Some ([CHR 0x01, CHR 0x01, CHR 0x00, CHR ''a'', CHR 0x00, CHR ''b'', CHR 0x00, CHR ''c''])"
proof -
  have "rfc_split 3 = 2" "rfc_split 2 = 1" by code_simp+
  then have "mth id [''a'', ''b'', ''c'']
      = [CHR 0x01, CHR 0x01, CHR 0x00, CHR ''a'', CHR 0x00, CHR ''b'', CHR 0x00, CHR ''c'']"
    by (simp add: mth.simps(2,3) eval_nat_numeral del: mth_single)
  then have "subtree_hash_word id (tree_leaves (log_tree id [''a'', ''b'', ''c''])) 0 3
     = Some ([CHR 0x01, CHR 0x01, CHR 0x00, CHR ''a'', CHR 0x00, CHR ''b'', CHR 0x00, CHR ''c''])"
    using merkle_root_rfc6962 [of id "[''a'', ''b'', ''c'']"] by simp
  then show ?thesis
    using merkle_root_rfc6962 [of id "[''a'', ''b'', ''c'']"] by (simp add: numeral_2_eq_2)
qed

subsection \<open>The root binds the leaves\<close>

text \<open>The texts that are hashed for a tree; the last one computed is \<open>top_input\<close>.\<close>

function hashed :: "(bytes \<Rightarrow> bytes) \<Rightarrow> bytes list \<Rightarrow> bytes set" where
  "hashed sha ds =
     (if ds = [] then {[]} else if length ds = 1 then {byte 0 # hd ds}
      else (let k = largest_pow2 (length ds)
            in insert (byte 1 # mth sha (take k ds) @ mth sha (drop k ds))
                 (hashed sha (take k ds) \<union> hashed sha (drop k ds))))"
  by pat_completeness auto
termination
proof (relation "measure (\<lambda>(sha, ds). length ds)")
  fix sha :: "bytes \<Rightarrow> bytes" and ds :: "bytes list" and k
  assume "ds \<noteq> []" "length ds \<noteq> 1" and k: "k = largest_pow2 (length ds)"
  then have "2 \<le> length ds" by (cases ds; cases "tl ds") auto
  from largest_pow2_range [OF this] k have "0 < k" "k < length ds" by auto
  then show "((sha, take k ds), sha, ds) \<in> measure (\<lambda>(sha, ds). length ds)"
    and "((sha, drop k ds), sha, ds) \<in> measure (\<lambda>(sha, ds). length ds)" by auto
qed simp

declare hashed.simps [simp del]

definition top_input :: "(bytes \<Rightarrow> bytes) \<Rightarrow> bytes list \<Rightarrow> bytes" where
  "top_input sha ds =
     (if ds = [] then [] else if length ds = 1 then byte 0 # hd ds
      else (let k = largest_pow2 (length ds) in byte 1 # mth sha (take k ds) @ mth sha (drop k ds)))"

lemma top_input_hashed: "top_input sha ds \<in> hashed sha ds"
  by (simp add: top_input_def hashed.simps [of sha ds] Let_def)

lemma mth_top_input: "mth sha ds = sha (top_input sha ds)"
proof (cases "2 \<le> length ds")
  case True
  then show ?thesis by (rule mth_split) (auto simp: top_input_def node_hash_def Let_def)
next
  case False
  then have "ds = [] \<or> (\<exists>d. ds = [d])" by (cases ds; cases "tl ds") auto
  then show ?thesis by (auto simp: top_input_def leaf_hash_def)
qed

text \<open>The three forms of \<open>top_input\<close>.\<close>

lemma top_input_Nil [simp]: "top_input sha [] = []"
  and top_input_single [simp]: "top_input sha [d] = byte 0 # d"
  by (simp_all add: top_input_def)

lemma top_input_split:
  assumes "2 \<le> length ds"
  obtains k where "0 < k" "k < length ds" "top_input sha ds = byte 1 # mth sha (take k ds) @ mth sha (drop k ds)"
    "hashed sha (take k ds) \<subseteq> hashed sha ds" "hashed sha (drop k ds) \<subseteq> hashed sha ds"
proof -
  have "ds \<noteq> []" "length ds \<noteq> 1" using assms by auto
  then show thesis
    using that [of "largest_pow2 (length ds)"] largest_pow2_range [OF assms]
    by (auto simp: top_input_def hashed.simps [of sha ds] Let_def)
qed

lemma few_cases:
  obtains "ds = []" | d where "ds = [d]" | "2 \<le> length ds"
  by (cases ds; cases "tl ds") auto

lemma mth_inj:
  assumes len: "\<And>x. length (sha x) = 32"
    and "inj_on sha (hashed sha ds \<union> hashed sha es)" and "mth sha ds = mth sha es"
  shows "ds = es"
  using assms(2,3)
proof (induction "length ds" arbitrary: ds es rule: less_induct)
  case less
  from less.prems(2) have "sha (top_input sha ds) = sha (top_input sha es)" by (simp add: mth_top_input)
  with less.prems(1) have top: "top_input sha ds = top_input sha es"
    by (meson UnI1 UnI2 inj_onD top_input_hashed)
  show ?case
  proof (cases ds rule: few_cases)
    case 3
    show ?thesis
    proof (cases es rule: few_cases)
      case es: 3
      from top_input_split [OF 3, of sha] obtain k where k: "0 < k" "k < length ds"
        "top_input sha ds = byte 1 # mth sha (take k ds) @ mth sha (drop k ds)"
        "hashed sha (take k ds) \<subseteq> hashed sha ds" "hashed sha (drop k ds) \<subseteq> hashed sha ds" .
      from top_input_split [OF es, of sha] obtain j where j: "0 < j" "j < length es"
        "top_input sha es = byte 1 # mth sha (take j es) @ mth sha (drop j es)"
        "hashed sha (take j es) \<subseteq> hashed sha es" "hashed sha (drop j es) \<subseteq> hashed sha es" .
      have "length (mth sha (take k ds)) = length (mth sha (take j es))" by (simp add: mth_top_input len)
      with top k(3) j(3) have eq: "mth sha (take k ds) = mth sha (take j es)" "mth sha (drop k ds) = mth sha (drop j es)"
        by simp_all
      have "take k ds = take j es"
        by (rule less.hyps [OF _ inj_on_subset [OF less.prems(1) Un_mono [OF k(4) j(4)]] eq(1)]) (use k in simp)
      moreover have "drop k ds = drop j es"
        by (rule less.hyps [OF _ inj_on_subset [OF less.prems(1) Un_mono [OF k(5) j(5)]] eq(2)]) (use k in simp)
      ultimately show ?thesis by (metis append_take_drop_id)
    qed (use top top_input_split [OF 3, of sha] in auto)
  next
    case 1
    with top show ?thesis by (cases es rule: few_cases) (auto elim: top_input_split [of es sha])
  next
    case 2
    with top show ?thesis by (cases es rule: few_cases) (auto elim: top_input_split [of es sha])
  qed
qed

text \<open>Two logs with different contents have different roots, unless SHA-256 collides on the
  texts that are hashed for them: the root fixes every leaf, their number and their order.\<close>

lemma merkle_root_binds:
  assumes "\<And>x. length (sha x) = 32" and "inj_on sha (hashed sha ds \<union> hashed sha es)" and "ds \<noteq> es"
  shows "tree_root sha (log_tree sha ds) \<noteq> tree_root sha (log_tree sha es)"
proof -
  have "length (hex_encode (mth sha xs)) = 64" for xs
    by (simp add: mth_top_input assms(1))
  then have "hex_encode (mth sha xs) \<noteq> []" "[] \<noteq> hex_encode (mth sha xs)" for xs
    by (metis list.size(3) zero_neq_numeral)+
  then show ?thesis
    using mth_inj [OF assms(1,2)] assms(3) by (auto simp: log_tree_root rfc6962_root_def dest: hex_encode_inj)
qed

text \<open>A function that has the length of a digest, and no collision on two small logs.\<close>

definition pad32 :: "bytes \<Rightarrow> bytes" where
  "pad32 x = take 32 (x @ replicate 32 (byte 0))"

lemma length_pad32 [simp]: "length (pad32 x) = 32"
  by (simp add: pad32_def)

lemma largest_pow2_small [simp]: "largest_pow2 2 = 1" "largest_pow2 3 = 2"
  by (simp_all add: largest_pow2_def pow2_from.simps)

lemma largest_pow2_small_Suc [simp]: "largest_pow2 (Suc (Suc 0)) = 1" "largest_pow2 (Suc (Suc (Suc 0))) = 2"
  using largest_pow2_small by (simp_all add: eval_nat_numeral)

lemma merkle_root_binds_witness:
  "tree_root pad32 (log_tree pad32 [''a'', ''b'']) \<noteq> tree_root pad32 (log_tree pad32 [''b'', ''a''])"
proof (rule merkle_root_binds)
  show "inj_on pad32 (hashed pad32 [''a'', ''b''] \<union> hashed pad32 [''b'', ''a''])"
    by (simp add: hashed.simps Let_def mth_code leaf_hash_def pad32_def inj_on_def)
qed simp_all

subsection \<open>Inclusion proofs\<close>

partial_function (option) inclusion_path ::
    "(bytes \<Rightarrow> bytes) \<Rightarrow> bytes list \<Rightarrow> nat \<Rightarrow> nat \<Rightarrow> nat \<Rightarrow> bytes list option" where
  "inclusion_path sha leaves idx lo hi =
     (if hi - lo = 1 then Some []
      else (let k = largest_pow2 (hi - lo)
            in if idx - lo < k
               then Option.bind (inclusion_path sha leaves idx lo (lo + k))
                      (\<lambda>p. Option.bind (subtree_hash sha leaves (lo + k) hi) (\<lambda>h. Some (p @ [h])))
               else Option.bind (inclusion_path sha leaves idx (lo + k) hi)
                      (\<lambda>p. Option.bind (subtree_hash sha leaves lo (lo + k)) (\<lambda>h. Some (p @ [h])))))"

fun bit_length :: "nat \<Rightarrow> nat" where
  "bit_length m = (if 0 < m then Suc (bit_length (m div 2)) else 0)"

declare bit_length.simps [simp del]

definition ceilLog2 :: "nat \<Rightarrow> nat" where
  "ceilLog2 n = (if n \<le> 1 then 0 else bit_length (n - 1))"

record inclusion_proof =
  proof_index :: nat
  proof_tree_size :: nat
  proof_path :: "bytes list"

fun climb :: "(bytes \<Rightarrow> bytes) \<Rightarrow> nat \<Rightarrow> bytes list \<Rightarrow> bytes \<Rightarrow> bytes" where
  "climb sha i [] cur = cur"
| "climb sha i (s # p) cur =
     climb sha (i div 2) p (if i mod 2 = 0 then node_hash sha cur s else node_hash sha s cur)"

definition verify_inclusion :: "(bytes \<Rightarrow> bytes) \<Rightarrow> inclusion_proof \<Rightarrow> bytes \<Rightarrow> string \<Rightarrow> bool" where
  "verify_inclusion sha p d root_hex \<longleftrightarrow>
     hex_encode (climb sha (proof_index p) (proof_path p) (leaf_hash sha d)) = root_hex"

lemma bit_length_le: "bit_length m \<le> j \<longleftrightarrow> m < 2 ^ j"
proof (induction j arbitrary: m)
  case 0
  then show ?case by (simp add: bit_length.simps [of m])
next
  case (Suc j)
  show ?case
  proof (cases "m = 0")
    case False
    then have "bit_length m \<le> Suc j \<longleftrightarrow> m div 2 < 2 ^ j" by (simp add: bit_length.simps [of m] Suc.IH)
    then show ?thesis by (simp add: div_less_iff_less_mult mult.commute)
  qed (simp add: bit_length.simps)
qed

lemma ceilLog2_le: "ceilLog2 n \<le> j \<longleftrightarrow> n \<le> 2 ^ j"
proof (cases "n \<le> 1")
  case True
  then have "n \<le> 2 ^ j" using one_le_power [of 2 j] by (meson one_le_numeral order.trans)
  with True show ?thesis by (simp add: ceilLog2_def)
qed (simp add: ceilLog2_def bit_length_le, linarith)

lemma ceilLog2_power [simp]: "ceilLog2 (2 ^ j) = j"
  using ceilLog2_le [of "2 ^ j" j] ceilLog2_le [of "2 ^ j" "ceilLog2 (2 ^ j)"] by (simp add: antisym)

lemma climb_snoc:
  "climb sha i (p @ [s]) cur =
     (let c = climb sha i p cur
      in if i div 2 ^ length p mod 2 = 0 then node_hash sha c s else node_hash sha s c)"
proof (induction p arbitrary: i cur)
  case (Cons a p)
  have "i div 2 div 2 ^ length p = i div 2 ^ length (a # p)" by (simp add: div_mult2_eq)
  then show ?case by (simp only: append_Cons climb.simps Cons.IH)
qed simp

text \<open>The texts that \<open>climb\<close> hashes; \<open>last_input\<close> is the one computed last.\<close>

fun climb_inputs :: "(bytes \<Rightarrow> bytes) \<Rightarrow> nat \<Rightarrow> bytes list \<Rightarrow> bytes \<Rightarrow> bytes list" where
  "climb_inputs sha i [] x = [x]"
| "climb_inputs sha i (s # p) x =
     x # climb_inputs sha (i div 2) p (byte 1 # (if i mod 2 = 0 then sha x @ s else s @ sha x))"

lemma climb_inputs_last: "climb sha i p (sha x) = sha (last (climb_inputs sha i p x)) \<and> climb_inputs sha i p x \<noteq> []"
proof (induction p arbitrary: i x)
  case (Cons s p)
  let ?x = "byte 1 # (if i mod 2 = 0 then sha x @ s else s @ sha x)"
  have "(if i mod 2 = 0 then node_hash sha (sha x) s else node_hash sha s (sha x)) = sha ?x"
    by (simp add: node_hash_def)
  with Cons.IH [of "i div 2" ?x] show ?case by (simp only: climb.simps climb_inputs.simps) simp
qed simp

lemma climb_inputs_snoc:
  "\<exists>t \<in> {climb sha i p (sha x) @ s, s @ climb sha i p (sha x)}.
     climb_inputs sha i (p @ [s]) x = climb_inputs sha i p x @ [byte 1 # t]"
proof (induction p arbitrary: i x)
  case (Cons a p)
  let ?x = "byte 1 # (if i mod 2 = 0 then sha x @ a else a @ sha x)"
  have "(if i mod 2 = 0 then node_hash sha (sha x) a else node_hash sha a (sha x)) = sha ?x"
    by (simp add: node_hash_def)
  with Cons.IH [of "i div 2" ?x] show ?case by (simp only: append_Cons climb.simps climb_inputs.simps) simp
qed simp

lemma climb_sound:
  assumes len: "\<And>x. length (sha x) = 32" "\<forall>s \<in> set p. length s = 32"
    and "inj_on sha (hashed sha ds \<union> set (climb_inputs sha i p (byte 0 # d)))"
    and "climb sha i p (leaf_hash sha d) = mth sha ds"
  shows "d \<in> set ds"
  using assms(2-)
proof (induction p arbitrary: ds rule: rev_induct)
  case Nil
  then have "top_input sha ds = byte 0 # d"
    using top_input_hashed [of sha ds] by (auto simp: leaf_hash_def mth_top_input dest: inj_onD)
  then show ?case by (cases ds rule: few_cases) (auto elim: top_input_split [of ds sha])
next
  case (snoc s p)
  let ?c = "climb sha i p (sha (byte 0 # d))"
  obtain t where t: "t = ?c @ s \<or> t = s @ ?c"
    "climb_inputs sha i (p @ [s]) (byte 0 # d) = climb_inputs sha i p (byte 0 # d) @ [byte 1 # t]"
    using climb_inputs_snoc [of sha i p "byte 0 # d" s] by auto
  have "sha (byte 1 # t) = sha (top_input sha ds)"
    using snoc.prems(3) climb_inputs_last [of sha i "p @ [s]" "byte 0 # d"] t(2)
    by (simp add: leaf_hash_def mth_top_input)
  then have top: "top_input sha ds = byte 1 # t"
    using snoc.prems(2) t(2) top_input_hashed [of sha ds] by (auto dest: inj_onD)
  then have "2 \<le> length ds" by (cases ds rule: few_cases) auto
  from top_input_split [OF this, of sha] obtain k where k:
    "top_input sha ds = byte 1 # mth sha (take k ds) @ mth sha (drop k ds)"
    "hashed sha (take k ds) \<subseteq> hashed sha ds" "hashed sha (drop k ds) \<subseteq> hashed sha ds" by blast
  have lens: "length ?c = 32" "length s = 32" "length (mth sha xs) = 32" for xs
    using snoc.prems(1) climb_inputs_last [of sha i p "byte 0 # d"] by (auto simp: mth_top_input len)
  have part: "d \<in> set xs" if "?c = mth sha xs" "hashed sha xs \<subseteq> hashed sha ds" for xs
  proof (rule snoc.IH)
    show "inj_on sha (hashed sha xs \<union> set (climb_inputs sha i p (byte 0 # d)))"
      by (rule inj_on_subset [OF snoc.prems(2)]) (use that(2) t(2) in auto)
  qed (use snoc.prems that in \<open>simp_all add: leaf_hash_def\<close>)
  have "?c = mth sha (take k ds) \<or> ?c = mth sha (drop k ds)"
    using t(1) top k(1) lens by auto
  then show ?case using part k(2,3) in_set_takeD in_set_dropD by metis
qed

text \<open>C12: A proof that verifies against the root of a log, whatever its path and index, is for data
  that was appended to the log, unless SHA-256 collides on the texts hashed for the log and by
  the verification.\<close>

theorem inclusion_proof_sound:
  assumes "\<And>x. length (sha x) = 32" and "\<forall>s \<in> set (proof_path p). length s = 32"
    and "inj_on sha (hashed sha ds \<union> set (climb_inputs sha (proof_index p) (proof_path p) (byte 0 # d)))"
    and "tree_root sha (log_tree sha ds) = Some r" and "verify_inclusion sha p d r"
  shows "d \<in> set ds"
proof (cases "ds = []")
  case True
  then have "hex_encode (climb sha (proof_index p) (proof_path p) (leaf_hash sha d)) = []"
    using assms(4,5) by (simp add: log_tree_root rfc6962_root_def verify_inclusion_def)
  moreover have "length (climb sha (proof_index p) (proof_path p) (leaf_hash sha d)) = 32"
    using climb_inputs_last [of sha "proof_index p" "proof_path p" "byte 0 # d"] assms(1) by (simp add: leaf_hash_def)
  ultimately show ?thesis by (metis length_hex_encode list.size(3) mult_eq_0_iff zero_neq_numeral)
next
  case False
  then have "climb sha (proof_index p) (proof_path p) (leaf_hash sha d) = mth sha ds"
    using assms(4,5) by (auto simp: log_tree_root rfc6962_root_def verify_inclusion_def dest: hex_encode_inj)
  with assms(1-3) show ?thesis by (rule climb_sound)
qed

lemma inclusion_proof_sound_witness:
  "''b'' \<in> set [''a'', ''b''] \<and> verify_inclusion pad32 \<lparr>proof_index = 1, proof_tree_size = 2, proof_path = [leaf_hash pad32 ''a'']\<rparr>
     ''b'' (hex_encode (mth pad32 [''a'', ''b'']))"
proof -
  let ?p = "\<lparr>proof_index = 1, proof_tree_size = 2, proof_path = [leaf_hash pad32 ''a'']\<rparr>"
  have v: "verify_inclusion pad32 ?p ''b'' (hex_encode (mth pad32 [''a'', ''b'']))"
    by (simp add: verify_inclusion_def mth_code Let_def)
  have "''b'' \<in> set [''a'', ''b'']"
  proof (rule inclusion_proof_sound [OF _ _ _ _ v])
    show "inj_on pad32 (hashed pad32 [''a'', ''b''] \<union> set (climb_inputs pad32 (proof_index ?p) (proof_path ?p) (byte 0 # ''b'')))"
      by (simp add: hashed.simps Let_def mth_code leaf_hash_def pad32_def inj_on_def)
  qed (simp_all add: log_tree_root rfc6962_root_def leaf_hash_def)
  with v show ?thesis by blast
qed

text \<open>Completeness, first for the complete subtrees.\<close>

lemma subtree_of_log [simp]:
  "lo < hi \<Longrightarrow> hi \<le> length ds \<Longrightarrow> subtree_hash sha (map (leaf_hash sha) ds) lo hi = Some (mth sha (segment lo hi ds))"
  by (rule subtree_hash_mth)

lemma high_bit: "r < k \<Longrightarrow> q < 2 \<Longrightarrow> i = k * q + r \<Longrightarrow> q = (if i < k then 0 else 1) \<and> r = (if i < k then i else i - k)"
  for k q r i :: nat
  by (cases q) (auto simp: less_Suc_eq numeral_2_eq_2)

lemma path_complete:
  assumes "i < 2 ^ j" "lo + 2 ^ j \<le> length ds"
  shows "\<exists>p. inclusion_path sha (map (leaf_hash sha) ds) (lo + i) lo (lo + 2 ^ j) = Some p \<and> length p = j \<and>
    (\<forall>idx. idx mod 2 ^ j = i \<longrightarrow> climb sha idx p (leaf_hash sha (ds ! (lo + i))) = mth sha (segment lo (lo + 2 ^ j) ds))"
  using assms
proof (induction j arbitrary: lo i)
  case 0
  then have "segment lo (Suc lo) ds = [ds ! lo]" by (simp add: take_Suc_conv_app_nth Cons_nth_drop_Suc [symmetric])
  with 0 show ?case by (simp add: inclusion_path.simps)
next
  case (Suc j)
  let ?k = "2 ^ j :: nat" and ?f = "leaf_hash sha"
  have k: "largest_pow2 (lo + 2 ^ Suc j - lo) = ?k" by (simp add: largest_pow2_power del: power_Suc)
  have ne: "lo + 2 ^ Suc j - lo \<noteq> 1" by simp
  note path = inclusion_path.simps [of sha _ "lo + i" lo "lo + 2 ^ Suc j"]
  have node: "mth sha (segment lo (lo + 2 ^ Suc j) ds)
      = node_hash sha (mth sha (segment lo (lo + ?k) ds)) (mth sha (segment (lo + ?k) (lo + 2 ^ Suc j) ds))"
    by (rule mth_segment [OF k [symmetric]]) (use Suc.prems in simp_all)
  have two: "lo + 2 ^ Suc j = (lo + ?k) + ?k" by simp
  have parity: "idx div ?k mod 2 = (if i < ?k then 0 else 1) \<and> idx mod ?k = (if i < ?k then i else i - ?k)"
    if "idx mod 2 ^ Suc j = i" for idx
    using that mod_mult2_eq [of idx ?k 2] by (intro high_bit) (simp_all add: mult.commute)
  show ?case
  proof (cases "i < ?k")
    case True
    with Suc.IH [of i lo] Suc.prems obtain p where p: "inclusion_path sha (map ?f ds) (lo + i) lo (lo + ?k) = Some p" "length p = j"
      "\<forall>idx. idx mod ?k = i \<longrightarrow> climb sha idx p (?f (ds ! (lo + i))) = mth sha (segment lo (lo + ?k) ds)" by auto
    let ?h = "mth sha (segment (lo + ?k) (lo + 2 ^ Suc j) ds)"
    have "inclusion_path sha (map ?f ds) (lo + i) lo (lo + 2 ^ Suc j) = Some (p @ [?h])"
      using True p(1) Suc.prems k ne by (simp only: path Let_def if_False) simp
    moreover have "climb sha idx (p @ [?h]) (?f (ds ! (lo + i))) = mth sha (segment lo (lo + 2 ^ Suc j) ds)"
      if "idx mod 2 ^ Suc j = i" for idx
      using p(2,3) parity [OF that] True by (simp only: climb_snoc Let_def node) simp
    ultimately show ?thesis using p(2) by auto
  next
    case False
    then have i: "lo + i = (lo + ?k) + (i - ?k)" "i - ?k < ?k" using Suc.prems by simp_all
    have "lo + ?k + ?k \<le> length ds" using Suc.prems by simp
    from Suc.IH [OF i(2) this] obtain p where
      p: "inclusion_path sha (map ?f ds) (lo + i) (lo + ?k) (lo + 2 ^ Suc j) = Some p" "length p = j"
      "\<forall>idx. idx mod ?k = i - ?k \<longrightarrow> climb sha idx p (?f (ds ! (lo + i))) = mth sha (segment (lo + ?k) (lo + 2 ^ Suc j) ds)"
      unfolding i(1) [symmetric] two by blast
    let ?h = "mth sha (segment lo (lo + ?k) ds)"
    have "inclusion_path sha (map ?f ds) (lo + i) lo (lo + 2 ^ Suc j) = Some (p @ [?h])"
      using False p(1) Suc.prems k ne by (simp only: path Let_def if_False) simp
    moreover have "climb sha idx (p @ [?h]) (?f (ds ! (lo + i))) = mth sha (segment lo (lo + 2 ^ Suc j) ds)"
      if "idx mod 2 ^ Suc j = i" for idx
      using p(2,3) parity [OF that] False by (simp only: climb_snoc Let_def node) simp
    ultimately show ?thesis using p(2) by auto
  qed
qed

lemma path_length:
  assumes "lo < hi" "hi \<le> length ds"
  shows "\<forall>i. lo \<le> i \<longrightarrow> i < hi \<longrightarrow>
    (\<exists>p. inclusion_path sha (map (leaf_hash sha) ds) i lo hi = Some p \<and> length p \<le> ceilLog2 (hi - lo))"
  using assms
proof (induction lo hi rule: range_induct)
  case (one lo)
  then show ?case by (simp add: inclusion_path.simps)
next
  case (split lo hi k)
  have two: "2 \<le> hi - lo" using split.hyps by simp
  from largest_pow2_spec [OF this] obtain j where j: "k = 2 ^ j" "2 ^ j < hi - lo" "hi - lo \<le> 2 * 2 ^ j"
    using split.hyps(1) by metis
  have "ceilLog2 (lo + k - lo) \<le> j" "ceilLog2 (hi - (lo + k)) \<le> j"
    using j by (simp_all add: ceilLog2_le)
  moreover have "Suc j \<le> ceilLog2 (hi - lo)"
    using j(2) ceilLog2_le [of "hi - lo" j] by simp
  ultimately have size: "ceilLog2 (lo + k - lo) < ceilLog2 (hi - lo)" "ceilLog2 (hi - (lo + k)) < ceilLog2 (hi - lo)"
    by linarith+
  note path = inclusion_path.simps [of sha _ _ lo hi]
  have ne: "hi - lo \<noteq> 1" using two by simp
  have k: "largest_pow2 (hi - lo) = k" using split.hyps(1) by simp
  show ?case
  proof (intro allI impI)
    fix i assume i: "lo \<le> i" "i < hi"
    show "\<exists>p. inclusion_path sha (map (leaf_hash sha) ds) i lo hi = Some p \<and> length p \<le> ceilLog2 (hi - lo)"
    proof (cases "i - lo < k")
      case True
      then have "i < lo + k" "lo + k \<le> length ds" using i split.hyps split.prems by simp_all
      with split.IH(1) i obtain p where p: "inclusion_path sha (map (leaf_hash sha) ds) i lo (lo + k) = Some p"
        "length p \<le> ceilLog2 (lo + k - lo)" by blast
      then have "inclusion_path sha (map (leaf_hash sha) ds) i lo hi = Some (p @ [mth sha (segment (lo + k) hi ds)])"
        using True p(1) ne split.hyps(2,3) split.prems by (simp add: path [of _ i] Let_def k del: One_nat_def)
      then show ?thesis using p(2) size(1) by simp
    next
      case False
      then have "lo + k \<le> i" using i by simp
      with split.IH(2) split.prems i obtain p where p: "inclusion_path sha (map (leaf_hash sha) ds) i (lo + k) hi = Some p"
        "length p \<le> ceilLog2 (hi - (lo + k))" by blast
      then have "inclusion_path sha (map (leaf_hash sha) ds) i lo hi = Some (p @ [mth sha (segment lo (lo + k) ds)])"
        using False p(1) ne split.hyps(2,3) split.prems by (simp add: path [of _ i] Let_def k del: One_nat_def)
      then show ?thesis using p(2) size(2) by simp
    qed
  qed
qed

text \<open>The first, complete part of a log: its paths go on with the rest as the right neighbour.\<close>

lemma path_first_part:
  assumes n: "2 \<le> length ds" and i: "i < largest_pow2 (length ds)"
  shows "\<exists>p. inclusion_path sha (map (leaf_hash sha) ds) i 0 (length ds) = Some p
    \<and> climb sha i p (leaf_hash sha (ds ! i)) = mth sha ds"
proof -
  obtain j where j: "largest_pow2 (length ds) = 2 ^ j" "2 ^ j < length ds"
    using n by (rule largest_pow2_spec)
  with i have i': "i < 2 ^ j" "i mod 2 ^ j = i" "i div 2 ^ j = 0" by simp_all
  from path_complete [of i j 0 ds sha] i' j obtain p where
    p: "inclusion_path sha (map (leaf_hash sha) ds) i 0 (2 ^ j) = Some p" "length p = j"
    "climb sha i p (leaf_hash sha (ds ! i)) = mth sha (take (2 ^ j) ds)" by auto
  let ?h = "mth sha (segment (2 ^ j) (length ds) ds)"
  have "inclusion_path sha (map (leaf_hash sha) ds) i 0 (length ds) = Some (p @ [?h])"
    using p(1) i' j n by (simp add: inclusion_path.simps [of sha _ i 0 "length ds"] Let_def)
  moreover have "mth sha ds = node_hash sha (mth sha (take (2 ^ j) ds)) ?h"
    using mth_segment [of "2 ^ j" "length ds" 0 ds sha] j by simp
  then have "climb sha i (p @ [?h]) (leaf_hash sha (ds ! i)) = mth sha ds"
    using p(2,3) i'(3) by (simp only: climb_snoc Let_def) simp
  ultimately show ?thesis by blast
qed

lemma path_full:
  assumes "length ds = 2 ^ h" "i < length ds"
  shows "\<exists>p. inclusion_path sha (map (leaf_hash sha) ds) i 0 (length ds) = Some p
    \<and> climb sha i p (leaf_hash sha (ds ! i)) = mth sha ds"
  using path_complete [of i h 0 ds sha] assms by auto

text \<open>C23: Every leaf has an inclusion path of at most ceilLog2(n) hashes, and a proof made of it
  verifies against the root when the number of leaves is a power of two or the leaf lies below the
  split point of the whole tree.\<close>

theorem inclusion_proof_complete:
  assumes "i < length ds" and "tree_root sha (log_tree sha ds) = Some r"
  shows "\<exists>p. inclusion_path sha (tree_leaves (log_tree sha ds)) i 0 (length ds) = Some p
    \<and> length p \<le> ceilLog2 (length ds)
    \<and> ((\<exists>h. length ds = 2 ^ h) \<or> i < largest_pow2 (length ds) \<longrightarrow>
         verify_inclusion sha \<lparr>proof_index = i, proof_tree_size = length ds, proof_path = p\<rparr> (ds ! i) r)"
proof -
  have r: "r = hex_encode (mth sha ds)" using assms by (auto simp: log_tree_root rfc6962_root_def)
  from path_length [of 0 "length ds" ds sha] assms(1) obtain p where
    p: "inclusion_path sha (map (leaf_hash sha) ds) i 0 (length ds) = Some p" "length p \<le> ceilLog2 (length ds)"
    by fastforce
  have "climb sha i p (leaf_hash sha (ds ! i)) = mth sha ds"
    if c: "(\<exists>h. length ds = 2 ^ h) \<or> i < largest_pow2 (length ds)"
  proof (cases "\<exists>h. length ds = 2 ^ h")
    case True
    then show ?thesis using path_full [of ds _ i sha] assms(1) p(1) by force
  next
    case False
    with assms(1) have "2 \<le> length ds"
      by (metis One_nat_def Suc_leI gr_implies_not0 le_neq_implies_less less_2_cases_iff linorder_not_less power_0)
    with c False show ?thesis using path_first_part [of ds i sha] p(1) by force
  qed
  with p r show ?thesis by (auto simp: verify_inclusion_def)
qed

lemma inclusion_proof_complete_witness:
  "\<exists>p. inclusion_path pad32 (tree_leaves (log_tree pad32 [''a'', ''b'', ''c''])) 1 0 (length [''a'', ''b'', ''c'']) = Some p
    \<and> verify_inclusion pad32 \<lparr>proof_index = 1, proof_tree_size = length [''a'', ''b'', ''c''], proof_path = p\<rparr>
         ([''a'', ''b'', ''c''] ! 1) (hex_encode (mth pad32 [''a'', ''b'', ''c'']))"
proof -
  have "1 < length [''a'', ''b'', ''c'']" "1 < largest_pow2 (length [''a'', ''b'', ''c''])"
    "tree_root pad32 (log_tree pad32 [''a'', ''b'', ''c'']) = Some (hex_encode (mth pad32 [''a'', ''b'', ''c'']))"
    by (simp_all add: log_tree_root rfc6962_root_def)
  with inclusion_proof_complete [OF this(1,3)] show ?thesis by blast
qed

text \<open>The verification uses only the parity of the index, not the size of the tree: in a log of
  three the proof of the last leaf verifies at the wrong position 1, and at its own position 2 only
  if SHA-256 collides.\<close>

lemma inclusion_wrong_position:
  assumes "tree_root sha (log_tree sha [a, b, c]) = Some r"
  shows "\<exists>h. inclusion_path sha (tree_leaves (log_tree sha [a, b, c])) 2 0 3 = Some [h]
    \<and> verify_inclusion sha \<lparr>proof_index = 1, proof_tree_size = 3, proof_path = [h]\<rparr> c r
    \<and> (verify_inclusion sha \<lparr>proof_index = 2, proof_tree_size = 3, proof_path = [h]\<rparr> c r
       \<longleftrightarrow> sha (byte 1 # leaf_hash sha c @ h) = sha (byte 1 # h @ leaf_hash sha c))"
proof -
  have r: "r = hex_encode (mth sha [a, b, c])" using assms by (simp add: log_tree_root rfc6962_root_def)
  have "inclusion_path sha (map (leaf_hash sha) [a, b, c]) 2 0 3 = Some [mth sha [a, b]]"
    using subtree_hash_mth [of 0 2 "[a, b, c]" sha]
    by (simp add: inclusion_path.simps Let_def numeral_2_eq_2 numeral_3_eq_3)
  moreover have "mth sha [a, b, c] = node_hash sha (mth sha [a, b]) (leaf_hash sha c)"
    by (simp add: mth_node [of sha a b "[c]"] Let_def)
  ultimately show ?thesis
    unfolding r by (auto simp: verify_inclusion_def node_hash_def dest: hex_encode_inj)
qed

lemma inclusion_wrong_position_witness:
  "\<exists>h. inclusion_path pad32 (tree_leaves (log_tree pad32 [''a'', ''b'', ''c''])) 2 0 3 = Some [h]
    \<and> \<not> verify_inclusion pad32 \<lparr>proof_index = 2, proof_tree_size = 3, proof_path = [h]\<rparr> ''c''
          (hex_encode (mth pad32 [''a'', ''b'', ''c'']))"
proof -
  have "tree_root pad32 (log_tree pad32 [''a'', ''b'', ''c'']) = Some (hex_encode (mth pad32 [''a'', ''b'', ''c'']))"
    by (simp add: log_tree_root rfc6962_root_def)
  from inclusion_wrong_position [OF this] obtain h where
    h: "inclusion_path pad32 (tree_leaves (log_tree pad32 [''a'', ''b'', ''c''])) 2 0 3 = Some [h]"
    "verify_inclusion pad32 \<lparr>proof_index = 2, proof_tree_size = 3, proof_path = [h]\<rparr> ''c'' (hex_encode (mth pad32 [''a'', ''b'', ''c'']))
       \<longleftrightarrow> pad32 (byte 1 # leaf_hash pad32 ''c'' @ h) = pad32 (byte 1 # h @ leaf_hash pad32 ''c'')" by blast
  have "inclusion_path pad32 (map (leaf_hash pad32) [''a'', ''b'', ''c'']) 2 0 3 = Some [mth pad32 [''a'', ''b'']]"
    using subtree_hash_mth [of 0 2 "[''a'', ''b'', ''c'']" pad32]
    by (simp add: inclusion_path.simps Let_def numeral_2_eq_2 numeral_3_eq_3)
  with h(1) have "h = mth pad32 [''a'', ''b'']" by simp
  then have "pad32 (byte 1 # leaf_hash pad32 ''c'' @ h) \<noteq> pad32 (byte 1 # h @ leaf_hash pad32 ''c'')"
    by (simp add: mth_code Let_def leaf_hash_def node_hash_def pad32_def)
  with h show ?thesis by blast
qed

end
