(* ===== verification/Evidence.thy ===== *)
theory Evidence
  imports Merkle
begin

text \<open>
  The evidence type of \<open>vault-api/domain/evidence/types.go\<close> and the bytes by which it enters a Merkle
  tree. SHA-256 is the parameter \<open>sha\<close>.
\<close>

record domain_evidence =
  de_id :: string
  content_type :: string
  content_hash :: string
  payload_ref :: string
  labels :: "(string, string) gomap"
  ingested_at :: int
  ingested_by :: string
  de_leaf_index :: "int option"

definition NewEvidence ::
    "(bytes \<Rightarrow> bytes) \<Rightarrow> int \<Rightarrow> string \<Rightarrow> string \<Rightarrow> bytes \<Rightarrow> string \<Rightarrow> domain_evidence" where
  "NewEvidence sha now i contentType payload ingestedBy =
     \<lparr>de_id = i, content_type = contentType, content_hash = hex_encode (sha payload), payload_ref = [],
      labels = [], ingested_at = now, ingested_by = ingestedBy, de_leaf_index = None\<rparr>"

definition LeafData :: "domain_evidence \<Rightarrow> bytes" where
  "LeafData e = content_hash e @ '':'' @ content_type e"

text \<open>The log that appends the leaf data of a list of evidence.\<close>

definition evidence_log :: "(bytes \<Rightarrow> bytes) \<Rightarrow> domain_evidence list \<Rightarrow> merkle_tree" where
  "evidence_log sha es = log_tree sha (map LeafData es)"

lemma LeafData_inj:
  assumes "LeafData e = LeafData e'"
    and "content_hash e = hex_encode h" "content_hash e' = hex_encode h'"
  shows "content_type e = content_type e' \<and> content_hash e = content_hash e'"
proof -
  have cut: "takeWhile (\<lambda>c. c \<noteq> CHR '':'') (hex_encode x @ '':'' @ t) = hex_encode x" for x t
    using hex_encode_chars [of x] by (subst takeWhile_append2) auto
  then have "content_hash e = content_hash e'"
    using assms by (metis LeafData_def)
  with assms(1) show ?thesis by (simp add: LeafData_def)
qed

text \<open>The leaf data of new evidence determines its content type and the hash of its payload, and
  nothing else: evidence with another id, ingester or time has the same leaf.\<close>

lemma leaf_data_binds:
  "LeafData (NewEvidence sha now i ct p who) = LeafData (NewEvidence sha now' i' ct' p' who')
     \<longleftrightarrow> ct = ct' \<and> sha p = sha p'"
  using LeafData_inj [of "NewEvidence sha now i ct p who" "NewEvidence sha now' i' ct' p' who'"]
  by (auto simp: NewEvidence_def LeafData_def dest: hex_encode_inj)

text \<open>C10: Two sequences of new evidence whose logs have the same root have the same content types and
  the same payloads in the same order, unless SHA-256 collides on the texts hashed for them.\<close>

theorem evidence_log_binds:
  assumes len: "\<And>x. length (sha x) = 32"
    and coll: "inj_on sha (hashed sha (map LeafData es) \<union> hashed sha (map LeafData es'))"
    and payloads: "inj_on sha (fst ` snd ` set xs \<union> fst ` snd ` set ys)"
    and es: "es = map (\<lambda>(i, p, ct). NewEvidence sha now i ct p who) xs"
    and es': "es' = map (\<lambda>(i, p, ct). NewEvidence sha now' i ct p who') ys"
    and root: "tree_root sha (evidence_log sha es) = tree_root sha (evidence_log sha es')"
  shows "map snd xs = map snd ys"
proof -
  have "length (hex_encode (mth sha zs)) = 64" for zs by (simp add: mth_top_input len)
  then have "hex_encode (mth sha zs) \<noteq> []" "[] \<noteq> hex_encode (mth sha zs)" for zs
    by (metis list.size(3) zero_neq_numeral)+
  with root have "map LeafData es = map LeafData es' \<or> mth sha (map LeafData es) = mth sha (map LeafData es')"
    by (auto simp: evidence_log_def log_tree_root rfc6962_root_def split: if_splits dest: hex_encode_inj)
  with mth_inj [OF len coll] have eq: "map LeafData es = map LeafData es'" by blast
  then have n: "length xs = length ys" by (metis es es' length_map)
  show ?thesis
  proof (rule nth_equalityI)
    fix j assume "j < length (map snd xs)"
    then have j: "j < length xs" "j < length ys" using n by simp_all
    obtain i p ct where x: "xs ! j = (i, p, ct)" by (metis prod.exhaust)
    obtain i' p' ct' where y: "ys ! j = (i', p', ct')" by (metis prod.exhaust)
    from eq have "map LeafData es ! j = map LeafData es' ! j" by simp
    then have "LeafData (NewEvidence sha now i ct p who) = LeafData (NewEvidence sha now' i' ct' p' who')"
      using j x y by (simp add: es es')
    then have "ct = ct'" "sha p = sha p'" by (simp_all add: leaf_data_binds)
    moreover have "p \<in> fst ` snd ` set xs" "p' \<in> fst ` snd ` set ys"
      using j x y by (force simp: image_iff dest: nth_mem)+
    ultimately have "p = p'" using payloads by (meson UnI1 UnI2 inj_onD)
    with \<open>ct = ct'\<close> show "map snd xs ! j = map snd ys ! j" using j x y by simp
  qed (simp add: n)
qed

lemma evidence_log_binds_witness:
  "tree_root pad32 (evidence_log pad32 [NewEvidence pad32 0 ''i'' ''t'' ''a'' ''w''])
     \<noteq> tree_root pad32 (evidence_log pad32 [NewEvidence pad32 0 ''i'' ''t'' ''b'' ''w''])"
proof
  let ?e = "\<lambda>p. NewEvidence pad32 0 ''i'' ''t'' p ''w''"
  assume eq: "tree_root pad32 (evidence_log pad32 [?e ''a'']) = tree_root pad32 (evidence_log pad32 [?e ''b''])"
  have "map snd [(''i'', ''a'', ''t'')] = map snd [(''i'', ''b'', ''t'')]"
  proof (rule evidence_log_binds [OF _ _ _ _ _ eq])
    show "inj_on pad32 (hashed pad32 (map LeafData [?e ''a'']) \<union> hashed pad32 (map LeafData [?e ''b'']))"
      by (simp add: hashed.simps LeafData_def NewEvidence_def pad32_def hex_digit_def inj_on_def)
  qed (simp_all add: pad32_def inj_on_def)
  then show False by simp
qed

end
