(* ===== verification/TreeHead.thy ===== *)
theory TreeHead
  imports Merkle EndToEnd
begin

text \<open>
  Signed tree heads: the record of \<open>vault-api/domain/checkpoint/types.go\<close>, the signer of
  \<open>merkle-engine/src/checkpoint.rs\<close> and the check \<open>VerifySTH\<close> of \<open>verifier-cli/verifier/crypto.go\<close>.
  Ed25519 is the parameter of \<open>Signer\<close>; \<open>keypair_of\<close> is \<open>Keypair::from_bytes\<close> of the Rust library. A
  key pair there is a secret of 32 bytes and its public key; Go's private key, the form that
  \<open>ed_sign\<close> and \<open>ed_pair\<close> take, is the one followed by the other.
\<close>

record signed_tree_head =
  sth_tree_size :: "64 word"
  sth_root_hash :: string
  sth_signature :: string
  sth_key_id :: string

record signer_wrapper =
  kp_secret :: bytes
  kp_public :: bytes

datatype wrapper_error = BadSeedHex | BadKeypair

definition go_private_key :: "signer_wrapper \<Rightarrow> bytes" where
  "go_private_key kp = kp_secret kp @ kp_public kp"

definition from_seed_hex :: "(bytes \<Rightarrow> signer_wrapper option) \<Rightarrow> string \<Rightarrow> wrapper_error + signer_wrapper" where
  "from_seed_hex keypair_of seed_hex =
     (case hex_decode seed_hex of
        None \<Rightarrow> Inl BadSeedHex
      | Some seed \<Rightarrow> (case keypair_of (seed @ []) of None \<Rightarrow> Inl BadKeypair | Some kp \<Rightarrow> Inr kp))"

text \<open>\<open>to_be_bytes\<close> of a \<open>u64\<close>.\<close>

fun be_bytes :: "nat \<Rightarrow> nat \<Rightarrow> bytes" where
  "be_bytes 0 n = []"
| "be_bytes (Suc k) n = be_bytes k (n div 256) @ [byte (n mod 256)]"

definition sth_context :: "64 word \<Rightarrow> string \<Rightarrow> bytes" where
  "sth_context tree_size root_hash = be_bytes 8 (unat tree_size) @ root_hash"

definition sign_sth ::
    "(bytes \<Rightarrow> bytes) \<Rightarrow> ed25519 \<Rightarrow> signer_wrapper \<Rightarrow> 64 word \<Rightarrow> string \<Rightarrow> signed_tree_head" where
  "sign_sth sha ed kp tree_size root_hash =
     \<lparr>sth_tree_size = tree_size, sth_root_hash = root_hash,
      sth_signature = hex_encode (ed_sign ed (go_private_key kp) (sth_context tree_size root_hash)),
      sth_key_id = hex_encode (sha (kp_public kp))\<rparr>"

text \<open>\<open>ed25519.Verify\<close> panics on a public key that is not 32 bytes long: no value.\<close>

definition VerifySTH :: "ed25519 \<Rightarrow> string \<Rightarrow> bytes \<Rightarrow> string \<Rightarrow> bool option" where
  "VerifySTH ed pubHex msg sigHex =
     (case hex_decode pubHex of
        None \<Rightarrow> Some False
      | Some pk \<Rightarrow>
          (case hex_decode sigHex of
             None \<Rightarrow> Some False
           | Some sig \<Rightarrow> if length pk \<noteq> 32 then None else Some (ed_verify ed pk msg sig)))"

definition SHA256Hex :: "(bytes \<Rightarrow> bytes) \<Rightarrow> bytes \<Rightarrow> string" where
  "SHA256Hex sha b = hex_encode (sha b)"

lemma length_be_bytes [simp]: "length (be_bytes k n) = k"
  by (induction k arbitrary: n) simp_all

lemma be_bytes_inj: "be_bytes k n = be_bytes k m \<Longrightarrow> n < 256 ^ k \<Longrightarrow> m < 256 ^ k \<Longrightarrow> n = m"
proof (induction k arbitrary: n m)
  case (Suc k)
  then have "byte (n mod 256) = byte (m mod 256)" "be_bytes k (n div 256) = be_bytes k (m div 256)" by simp_all
  then have "n mod 256 = m mod 256" by (metis code_byte mod_less_divisor zero_less_numeral)
  moreover have "n div 256 = m div 256"
    using Suc.IH [of "n div 256" "m div 256"] Suc.prems by (simp add: less_mult_imp_div_less mult.commute)
  ultimately show ?case by (metis div_mult_mod_eq)
qed simp

text \<open>The bytes that are signed determine the size and the root.\<close>

lemma sth_context_inj: "sth_context n r = sth_context n' r' \<Longrightarrow> n = n' \<and> r = r'"
proof -
  assume eq: "sth_context n r = sth_context n' r'"
  then have "be_bytes 8 (unat n) = be_bytes 8 (unat n')" "r = r'"
    by (simp_all add: sth_context_def)
  moreover have "unat n < 256 ^ 8" "unat n' < 256 ^ 8"
    using unsigned_less [of n] unsigned_less [of n'] by simp_all
  ultimately show "n = n' \<and> r = r'" using be_bytes_inj by (metis unsigned_word_eqI)
qed

text \<open>C25: A tree head that the engine signs verifies with the hex form of its public key, and carries the
  hash of that key as its key id. The verification itself, for any texts and message: it accepts
  exactly when both texts are hexadecimal and Ed25519 accepts the decoded signature of the message
  under the decoded key; it refuses a text that is not hexadecimal, and otherwise panics on a key
  that is not 32 bytes long. The signed bytes of one size and root are those of no other.\<close>

theorem sth_verifies:
  assumes "documented_ed25519 ed" and "ed_pair ed (go_private_key kp) (kp_public kp)"
  shows "VerifySTH ed (hex_encode (kp_public kp)) (sth_context n r) (sth_signature (sign_sth sha ed kp n r)) = Some True
    \<and> sth_key_id (sign_sth sha ed kp n r) = SHA256Hex sha (kp_public kp)
    \<and> (\<forall>pubHex sigHex m. VerifySTH ed pubHex m sigHex = Some True \<longleftrightarrow>
         (\<exists>pk sig. hex_decode pubHex = Some pk \<and> hex_decode sigHex = Some sig \<and> length pk = 32 \<and> ed_verify ed pk m sig))
    \<and> (\<forall>pubHex sigHex m. VerifySTH ed pubHex m sigHex = None \<longleftrightarrow>
         (\<exists>pk. hex_decode pubHex = Some pk \<and> hex_decode sigHex \<noteq> None \<and> length pk \<noteq> 32))
    \<and> (\<forall>pubHex sigHex m. hex_decode pubHex = None \<or> hex_decode sigHex = None \<longrightarrow> VerifySTH ed pubHex m sigHex = Some False)
    \<and> (\<forall>n' r'. sth_context n' r' = sth_context n r \<longrightarrow> n' = n \<and> r' = r)"
proof (intro conjI allI impI)
  show "VerifySTH ed (hex_encode (kp_public kp)) (sth_context n r) (sth_signature (sign_sth sha ed kp n r)) = Some True"
    using assms by (simp add: VerifySTH_def sign_sth_def documented_ed25519_def)
  show "n' = n" "r' = r" if "sth_context n' r' = sth_context n r" for n' r'
    using sth_context_inj [OF that] by simp_all
qed (auto simp: VerifySTH_def sign_sth_def SHA256Hex_def split: option.splits)

text \<open>A key seed of 32 bytes is never accepted: the engine passes the seed alone to a function that
  reads a pair of keys, 64 bytes.\<close>

lemma seed_never_accepted:
  assumes "\<forall>b. keypair_of b \<noteq> None \<longrightarrow> length b = 64"
  shows "length seed = 32 \<longrightarrow> from_seed_hex keypair_of (hex_encode seed) = Inl BadKeypair"
  using assms by (cases "keypair_of seed") (auto simp: from_seed_hex_def)

lemma sth_verifies_witness:
  "VerifySTH plain_ed25519 (hex_encode (replicate 32 (CHR ''k''))) (sth_context 5 ''r'')
     (sth_signature (sign_sth pad32 plain_ed25519 \<lparr>kp_secret = replicate 32 (CHR ''k''), kp_public = replicate 32 (CHR ''k'')\<rparr> 5 ''r''))
     = Some True
   \<and> VerifySTH plain_ed25519 (hex_encode (replicate 32 (CHR ''k''))) (sth_context 5 ''r'') (hex_encode ''s'') \<noteq> Some True"
proof -
  let ?kp = "\<lparr>kp_secret = replicate 32 (CHR ''k''), kp_public = replicate 32 (CHR ''k'')\<rparr>"
  have "ed_pair plain_ed25519 (go_private_key ?kp) (kp_public ?kp)" by (simp add: plain_ed25519_def go_private_key_def)
  note fact = sth_verifies [OF plain_ed25519_documented this, of 5 "''r''" pad32]
  show ?thesis
  proof
    show "VerifySTH plain_ed25519 (hex_encode (replicate 32 (CHR ''k''))) (sth_context 5 ''r'')
        (sth_signature (sign_sth pad32 plain_ed25519 ?kp 5 ''r'')) = Some True"
      using fact by simp
    have "\<not> ed_verify plain_ed25519 pk m ''s''" for pk m by (simp add: plain_ed25519_def)
    then show "VerifySTH plain_ed25519 (hex_encode (replicate 32 (CHR ''k''))) (sth_context 5 ''r'') (hex_encode ''s'') \<noteq> Some True"
      using fact by (auto simp only: hex_roundtrip option.inject)
  qed
qed

end
