(* ===== verification/Bundle.thy ===== *)
theory Bundle
  imports Http
begin

text \<open>
  The manifest of an evidence bundle, \<open>vault-api/domain/bundle/format.go\<close>, with what it uses of
  \<open>time\<close>: a \<open>time.Time\<close> is its civil date and clock with the offset of its location in minutes, and
  \<open>time_json\<close>, \<open>parse_rfc3339\<close> are \<open>MarshalJSON\<close> and the parser that \<open>UnmarshalJSON\<close> tries first; what
  this parser refuses goes to the argument \<open>lenient\<close>, the layout parser \<open>time.Parse\<close> (both read the
  text between the quotes as it stands; a time written with escapes is outside the model). An entry
  is an \<open>interface{}\<close> read from JSON; \<open>float_text\<close> gives the text that \<open>strconv\<close> prints for the
  \<open>float64\<close> of a number, and has no value when the number is out of range.
\<close>

subsection \<open>Times in JSON\<close>

record go_time =
  gt_year :: int
  gt_month :: nat
  gt_day :: nat
  gt_hour :: nat
  gt_minute :: nat
  gt_second :: nat
  gt_nsec :: nat
  gt_offset :: int

fun pad :: "nat \<Rightarrow> nat \<Rightarrow> string" where
  "pad 0 n = []"
| "pad (Suc w) n = pad w (n div 10) @ [digit_char (n mod 10)]"

text \<open>The fraction without its trailing zeros.\<close>

definition format_nsec :: "nat \<Rightarrow> string" where
  "format_nsec n =
     (let ds = rev (dropWhile (\<lambda>c. c = CHR ''0'') (rev (pad 9 n))) in if ds = [] then [] else CHR ''.'' # ds)"

definition format_zone :: "int \<Rightarrow> string" where
  "format_zone z =
     (if z = 0 then ''Z''
      else (if z < 0 then CHR ''-'' else CHR ''+'') # pad 2 (nat \<bar>z\<bar> div 60) @ '':'' @ pad 2 (nat \<bar>z\<bar> mod 60))"

definition time_json :: "go_time \<Rightarrow> string option" where
  "time_json t =
     (if gt_year t < 0 \<or> gt_year t > 9999 \<or> \<bar>gt_offset t\<bar> \<ge> 24 * 60 then None
      else Some (pad 4 (nat (gt_year t)) @ ''-'' @ pad 2 (gt_month t) @ ''-'' @ pad 2 (gt_day t) @ ''T''
                 @ pad 2 (gt_hour t) @ '':'' @ pad 2 (gt_minute t) @ '':'' @ pad 2 (gt_second t)
                 @ format_nsec (gt_nsec t) @ format_zone (gt_offset t)))"

definition num_in :: "nat \<Rightarrow> nat \<Rightarrow> string \<Rightarrow> nat option" where
  "num_in lo hi s =
     (case parse_nat s of None \<Rightarrow> None | Some n \<Rightarrow> if lo \<le> n \<and> n \<le> hi then Some n else None)"

definition days_in :: "nat \<Rightarrow> nat \<Rightarrow> nat" where
  "days_in m y =
     (if m = 2 then (if y mod 4 = 0 \<and> (y mod 100 \<noteq> 0 \<or> y mod 400 = 0) then 29 else 28)
      else if m \<in> {4, 6, 9, 11} then 30 else 31)"

definition parse_frac :: "string \<Rightarrow> nat \<times> string" where
  "parse_frac s =
     (if 2 \<le> length s \<and> hd s = CHR ''.'' \<and> is_digit (s ! 1)
      then let ds = takeWhile is_digit (tl s); k = take 9 ds
           in (the (parse_nat k) * 10 ^ (9 - length k), dropWhile is_digit (tl s))
      else (0, s))"

definition parse_zone :: "string \<Rightarrow> int option" where
  "parse_zone s =
     (if s = ''Z'' then Some 0
      else if length s \<noteq> 6 then None
      else case (num_in 0 23 (take 2 (drop 1 s)), num_in 0 59 (drop 4 s)) of
             (Some h, Some m) \<Rightarrow>
               if (s ! 0 = CHR ''-'' \<or> s ! 0 = CHR ''+'') \<and> s ! 3 = CHR '':''
               then Some ((if s ! 0 = CHR ''-'' then - 1 else 1) * int (h * 60 + m)) else None
           | _ \<Rightarrow> None)"

definition parse_rfc3339 :: "string \<Rightarrow> go_time option" where
  "parse_rfc3339 s =
     (if length s < 19 then None
      else
        Option.bind (num_in 0 9999 (take 4 s)) (\<lambda>y.
        Option.bind (num_in 1 12 (take 2 (drop 5 s))) (\<lambda>mo.
        Option.bind (num_in 1 (days_in mo y) (take 2 (drop 8 s))) (\<lambda>d.
        Option.bind (num_in 0 23 (take 2 (drop 11 s))) (\<lambda>h.
        Option.bind (num_in 0 59 (take 2 (drop 14 s))) (\<lambda>mi.
        Option.bind (num_in 0 59 (take 2 (drop 17 s))) (\<lambda>se.
          if \<not> (s ! 4 = CHR ''-'' \<and> s ! 7 = CHR ''-'' \<and> s ! 10 = CHR ''T'' \<and> s ! 13 = CHR '':'' \<and> s ! 16 = CHR '':'') then None
          else let (ns, r) = parse_frac (drop 19 s)
               in map_option (\<lambda>z. \<lparr>gt_year = int y, gt_month = mo, gt_day = d, gt_hour = h, gt_minute = mi,
                                  gt_second = se, gt_nsec = ns, gt_offset = z\<rparr>) (parse_zone r))))))))"

definition into_time :: "(string \<Rightarrow> go_time option) \<Rightarrow> json \<Rightarrow> go_time \<Rightarrow> go_time option" where
  "into_time lenient v old =
     (case v of
        JStr s \<Rightarrow> (case parse_rfc3339 s of Some t \<Rightarrow> Some t | None \<Rightarrow> lenient s)
      | JNull \<Rightarrow> Some old
      | _ \<Rightarrow> None)"

text \<open>A time whose fields are those of a day and a clock.\<close>

definition time_ok :: "go_time \<Rightarrow> bool" where
  "time_ok t \<longleftrightarrow>
     1 \<le> gt_month t \<and> gt_month t \<le> 12 \<and> 1 \<le> gt_day t \<and> gt_day t \<le> days_in (gt_month t) (nat (gt_year t))
     \<and> gt_hour t \<le> 23 \<and> gt_minute t \<le> 59 \<and> gt_second t \<le> 59 \<and> gt_nsec t < 10 ^ 9"

lemma length_pad [simp]: "length (pad w n) = w"
  by (induction w arbitrary: n) simp_all

lemma set_pad: "c \<in> set (pad w n) \<Longrightarrow> is_digit c"
  by (induction w arbitrary: n) auto

lemma pad_Nil [simp]: "pad w n = [] \<longleftrightarrow> w = 0"
  by (cases w) simp_all

lemma digits_acc_pad: "digits_acc 0 (pad w n) = Some (n mod 10 ^ w)"
proof (induction w arbitrary: n)
  case (Suc w)
  have "n mod (10 * 10 ^ w) = 10 * (n div 10 mod 10 ^ w) + n mod 10" by (rule mod_mult2_eq)
  then show ?case by (simp add: digits_acc_append Suc)
qed simp

lemma parse_nat_pad: "0 < w \<Longrightarrow> n < 10 ^ w \<Longrightarrow> parse_nat (pad w n) = Some n"
  by (simp add: parse_nat_def digits_acc_pad)

lemma num_in_pad: "0 < w \<Longrightarrow> n < 10 ^ w \<Longrightarrow> lo \<le> n \<Longrightarrow> n \<le> hi \<Longrightarrow> num_in lo hi (pad w n) = Some n"
  by (simp add: num_in_def parse_nat_pad)

lemma zone_head: "\<exists>c r. format_zone z = c # r \<and> \<not> is_digit c \<and> c \<noteq> CHR ''.''"
  by (simp add: format_zone_def is_digit_def)

lemma parse_format_zone: "\<bar>z\<bar> < 1440 \<Longrightarrow> parse_zone (format_zone z) = Some z"
proof (cases "z = 0")
  case False
  assume z: "\<bar>z\<bar> < 1440"
  let ?h = "nat \<bar>z\<bar> div 60" and ?m = "nat \<bar>z\<bar> mod 60"
  have "?h \<le> 23" "?m \<le> 59" using z by (simp_all add: less_Suc_eq_le [symmetric] div_less_iff_less_mult)
  then have num: "num_in 0 23 (pad 2 ?h) = Some ?h" "num_in 0 59 (pad 2 ?m) = Some ?m"
    by (simp_all add: num_in_pad)
  have sum: "int (?h * 60 + ?m) = \<bar>z\<bar>" by (simp only: div_mult_mod_eq int_nat_eq abs_ge_zero if_True)
  let ?c = "if z < 0 then CHR ''-'' else CHR ''+''" and ?r = "pad 2 ?h @ '':'' @ pad 2 ?m"
  have zone: "format_zone z = ?c # ?r" using False by (simp add: format_zone_def)
  have parts: "take 2 (drop 1 (?c # ?r)) = pad 2 ?h" "drop 4 (?c # ?r) = pad 2 ?m" "(?c # ?r) ! 3 = CHR '':''"
    "length (?c # ?r) = 6" "?c # ?r \<noteq> ''Z''"
    by (simp_all add: nth_append)
  show ?thesis
    unfolding zone parse_zone_def parts num using parts(5) sum by (auto simp del: of_nat_add of_nat_mult)
qed (simp add: format_zone_def parse_zone_def)

lemma digits_acc_zeros: "digits_acc a (replicate k (CHR ''0'')) = Some (a * 10 ^ k)"
  by (induction k arbitrary: a) (simp_all add: is_digit_def mult.assoc)

lemma parse_format_nsec:
  assumes "n < 10 ^ 9" and z: "z = c # r" "\<not> is_digit c" "c \<noteq> CHR ''.''"
  shows "parse_frac (format_nsec n @ z) = (n, z)"
proof -
  define ds where "ds = rev (dropWhile (\<lambda>c. c = CHR ''0'') (rev (pad 9 n)))"
  define k where "k = 9 - length ds"
  define zs where "zs = takeWhile (\<lambda>c. c = CHR ''0'') (rev (pad 9 n))"
  have zs: "rev (pad 9 n) = zs @ rev ds" "\<forall>c \<in> set zs. c = CHR ''0''"
    unfolding ds_def zs_def rev_rev_ident by (simp_all only: takeWhile_dropWhile_id) (auto dest: set_takeWhileD)
  from arg_cong [OF zs(1), of rev] have pad: "pad 9 n = ds @ rev zs" by (simp only: rev_append rev_rev_ident)
  from arg_cong [OF zs(1), of length] have "length ds + length zs = 9" by (simp only: length_append length_rev length_pad)
  then have k: "length zs = k" "length ds = 9 - k" "k \<le> 9" by (simp_all add: k_def)
  then have zeros: "rev zs = replicate k (CHR ''0'')" using zs(2) k(1) by (intro replicate_eqI) simp_all
  have digits: "\<forall>c \<in> set ds. is_digit c" using pad set_pad [of _ 9 n] by auto
  from pad zeros have "digits_acc 0 (ds @ replicate k (CHR ''0'')) = Some n"
    using digits_acc_pad [of 9 n] assms(1) by simp
  then obtain v where v: "digits_acc 0 ds = Some v" "n = v * 10 ^ k"
    by (auto simp: digits_acc_append digits_acc_zeros split: option.splits Option.bind_splits)
  show ?thesis
  proof (cases "ds = []")
    case True
    with v have "n = 0" by simp
    moreover have "format_nsec n = []" using True by (simp only: format_nsec_def Let_def ds_def [symmetric] if_True refl)
    ultimately show ?thesis using z by (simp add: parse_frac_def)
  next
    case False
    then have first: "is_digit (hd ds)" using digits by (cases ds) simp_all
    have "takeWhile is_digit (ds @ z) = ds" "dropWhile is_digit (ds @ z) = z" using digits z by simp_all
    moreover have "take 9 ds = ds" "9 - length ds = k" using k by simp_all
    moreover have "the (parse_nat ds) = v" using v False by (simp add: parse_nat_def)
    moreover have "format_nsec n = CHR ''.'' # ds" using False by (simp add: format_nsec_def Let_def ds_def [symmetric])
    moreover have "(CHR ''.'' # ds @ z) ! 1 = hd ds" using False by (cases ds) simp_all
    ultimately show ?thesis using first v(2) False by (cases ds) (simp_all add: parse_frac_def Let_def)
  qed
qed

text \<open>A time that is printed parses to itself.\<close>

lemma time_roundtrip:
  assumes ok: "time_ok t" and s: "time_json t = Some s"
  shows "parse_rfc3339 s = Some t"
proof -
  have range: "0 \<le> gt_year t" "nat (gt_year t) \<le> 9999" "\<bar>gt_offset t\<bar> < 1440"
    using s by (auto simp: time_json_def split: if_splits)
  define r where "r = format_nsec (gt_nsec t) @ format_zone (gt_offset t)"
  have str: "s = pad 4 (nat (gt_year t)) @ CHR ''-'' # pad 2 (gt_month t) @ CHR ''-'' # pad 2 (gt_day t) @ CHR ''T''
      # pad 2 (gt_hour t) @ CHR '':'' # pad 2 (gt_minute t) @ CHR '':'' # pad 2 (gt_second t) @ r"
    using s by (auto simp: time_json_def r_def split: if_splits)
  have cut: "take 4 s = pad 4 (nat (gt_year t))" "take 2 (drop 5 s) = pad 2 (gt_month t)" "take 2 (drop 8 s) = pad 2 (gt_day t)"
    "take 2 (drop 11 s) = pad 2 (gt_hour t)" "take 2 (drop 14 s) = pad 2 (gt_minute t)"
    "take 2 (drop 17 s) = pad 2 (gt_second t)" "drop 19 s = r" "\<not> length s < 19"
    "s ! 4 = CHR ''-''" "s ! 7 = CHR ''-''" "s ! 10 = CHR ''T''" "s ! 13 = CHR '':''" "s ! 16 = CHR '':''"
    by (simp_all add: str nth_append nth_Cons')
  have d: "days_in m y \<le> 31" for m y by (simp add: days_in_def)
  have frac: "parse_frac r = (gt_nsec t, format_zone (gt_offset t))"
    using zone_head [of "gt_offset t"] ok parse_format_nsec [of "gt_nsec t" "format_zone (gt_offset t)"]
    by (auto simp: r_def time_ok_def)
  have nums: "num_in 0 9999 (pad 4 (nat (gt_year t))) = Some (nat (gt_year t))" "num_in 1 12 (pad 2 (gt_month t)) = Some (gt_month t)"
    "num_in 1 (days_in (gt_month t) (nat (gt_year t))) (pad 2 (gt_day t)) = Some (gt_day t)"
    "num_in 0 23 (pad 2 (gt_hour t)) = Some (gt_hour t)" "num_in 0 59 (pad 2 (gt_minute t)) = Some (gt_minute t)"
    "num_in 0 59 (pad 2 (gt_second t)) = Some (gt_second t)"
    using ok range d [of "gt_month t" "nat (gt_year t)"] by (auto simp: time_ok_def intro!: num_in_pad)
  show ?thesis
    using range cut(8) by (simp add: parse_rfc3339_def cut(1-7,9-) nums frac parse_format_zone del: One_nat_def)
qed

subsection \<open>Entries\<close>

text \<open>A JSON value as an \<open>interface{}\<close>: numbers become floats, objects become maps (the last of equal
  keys wins), which are printed in the order of their keys.\<close>

fun any_of :: "(string \<Rightarrow> string option) \<Rightarrow> json \<Rightarrow> json option"
  and any_elems :: "(string \<Rightarrow> string option) \<Rightarrow> json list \<Rightarrow> json list option"
  and any_members :: "(string \<Rightarrow> string option) \<Rightarrow> (string \<times> json) list \<Rightarrow> (string \<times> json) list \<Rightarrow> (string \<times> json) list option" where
  "any_of float_text (JNum n) = map_option JNum (float_text n)"
| "any_of float_text (JArr vs) = map_option JArr (any_elems float_text vs)"
| "any_of float_text (JObj kvs) = map_option jmap (any_members float_text kvs [])"
| "any_of float_text v = Some v"
| "any_elems float_text [] = Some []"
| "any_elems float_text (v # vs) =
     Option.bind (any_of float_text v) (\<lambda>x. map_option ((#) x) (any_elems float_text vs))"
| "any_members float_text [] m = Some m"
| "any_members float_text (kv # kvs) m =
     Option.bind (any_of float_text (snd kv)) (\<lambda>x. any_members float_text kvs (AList.update (fst kv) x m))"

subsection \<open>The manifest\<close>

definition BundleVersion :: string where
  "BundleVersion = ''1''"

definition PathSTH :: string where
  "PathSTH = ''checkpoint/sth.json''"

record LeafRange =
  lr_first :: int
  lr_last :: int

record CheckpointRef =
  cr_filename :: string
  cr_key_id :: string
  cr_signature :: string

record Manifest =
  mf_version :: string
  created_at :: go_time
  created_by :: string
  mf_tree_size :: int
  mf_root_hash :: string
  leaf_range :: LeafRange
  evidence_count :: int
  entries :: "json list option"      \<comment> \<open>\<open>None\<close> is the nil slice\<close>
  checkpoint :: CheckpointRef

definition zero_time :: go_time where
  "zero_time = \<lparr>gt_year = 1, gt_month = 1, gt_day = 1, gt_hour = 0, gt_minute = 0, gt_second = 0, gt_nsec = 0, gt_offset = 0\<rparr>"

definition zero_manifest :: Manifest where
  "zero_manifest =
     \<lparr>mf_version = [], created_at = zero_time, created_by = [], mf_tree_size = 0, mf_root_hash = [],
      leaf_range = \<lparr>lr_first = 0, lr_last = 0\<rparr>, evidence_count = 0, entries = None,
      checkpoint = \<lparr>cr_filename = [], cr_key_id = [], cr_signature = []\<rparr>\<rparr>"

definition manifest_json :: "string \<Rightarrow> Manifest \<Rightarrow> json" where
  "manifest_json at m =
     JObj [(''version'', JStr (mf_version m)), (''created_at'', JStr at), (''created_by'', JStr (created_by m)),
           (''tree_size'', jint (mf_tree_size m)), (''root_hash'', JStr (mf_root_hash m)),
           (''leaf_range'', JObj [(''first'', jint (lr_first (leaf_range m))), (''last'', jint (lr_last (leaf_range m)))]),
           (''evidence_count'', jint (evidence_count m)),
           (''entries'', case entries m of None \<Rightarrow> JNull | Some vs \<Rightarrow> JArr vs),
           (''checkpoint'', JObj [(''filename'', JStr (cr_filename (checkpoint m))),
              (''key_id'', JStr (cr_key_id (checkpoint m))), (''signature'', JStr (cr_signature (checkpoint m)))])]"

text \<open>The version is set in the caller's manifest; no text when the time cannot be printed.\<close>

definition MarshalManifest :: "Manifest \<Rightarrow> Manifest \<times> bytes option" where
  "MarshalManifest m =
     (let m' = m\<lparr>mf_version := BundleVersion\<rparr>
      in (m', map_option (\<lambda>at. json_print (manifest_json at m')) (time_json (created_at m'))))"

definition leaf_range_field :: "string \<Rightarrow> json \<Rightarrow> LeafRange \<Rightarrow> LeafRange option" where
  "leaf_range_field k v r =
     (if same_field ''first'' k then map_option (\<lambda>i. r\<lparr>lr_first := i\<rparr>) (into_int64 v (lr_first r))
      else if same_field ''last'' k then map_option (\<lambda>i. r\<lparr>lr_last := i\<rparr>) (into_int64 v (lr_last r))
      else Some r)"

definition checkpoint_ref_field :: "string \<Rightarrow> json \<Rightarrow> CheckpointRef \<Rightarrow> CheckpointRef option" where
  "checkpoint_ref_field k v r =
     (if same_field ''filename'' k then map_option (\<lambda>s. r\<lparr>cr_filename := s\<rparr>) (into_string v (cr_filename r))
      else if same_field ''key_id'' k then map_option (\<lambda>s. r\<lparr>cr_key_id := s\<rparr>) (into_string v (cr_key_id r))
      else if same_field ''signature'' k then map_option (\<lambda>s. r\<lparr>cr_signature := s\<rparr>) (into_string v (cr_signature r))
      else Some r)"

definition into_entries :: "(string \<Rightarrow> string option) \<Rightarrow> json \<Rightarrow> json list option option" where
  "into_entries float_text v =
     (case v of
        JArr vs \<Rightarrow> map_option Some (any_elems float_text vs)
      | JNull \<Rightarrow> Some None
      | _ \<Rightarrow> None)"

definition manifest_field ::
    "(string \<Rightarrow> go_time option) \<Rightarrow> (string \<Rightarrow> string option) \<Rightarrow> string \<Rightarrow> json \<Rightarrow> Manifest \<Rightarrow> Manifest option" where
  "manifest_field lenient float_text k v m =
     (if same_field ''version'' k then map_option (\<lambda>s. m\<lparr>mf_version := s\<rparr>) (into_string v (mf_version m))
      else if same_field ''created_at'' k then map_option (\<lambda>t. m\<lparr>created_at := t\<rparr>) (into_time lenient v (created_at m))
      else if same_field ''created_by'' k then map_option (\<lambda>s. m\<lparr>created_by := s\<rparr>) (into_string v (created_by m))
      else if same_field ''tree_size'' k then map_option (\<lambda>i. m\<lparr>mf_tree_size := i\<rparr>) (into_int64 v (mf_tree_size m))
      else if same_field ''root_hash'' k then map_option (\<lambda>s. m\<lparr>mf_root_hash := s\<rparr>) (into_string v (mf_root_hash m))
      else if same_field ''leaf_range'' k then map_option (\<lambda>r. m\<lparr>leaf_range := r\<rparr>) (into_struct leaf_range_field v (leaf_range m))
      else if same_field ''evidence_count'' k then map_option (\<lambda>i. m\<lparr>evidence_count := i\<rparr>) (into_int64 v (evidence_count m))
      else if same_field ''entries'' k then map_option (\<lambda>es. m\<lparr>entries := es\<rparr>) (into_entries float_text v)
      else if same_field ''checkpoint'' k then map_option (\<lambda>r. m\<lparr>checkpoint := r\<rparr>) (into_struct checkpoint_ref_field v (checkpoint m))
      else Some m)"

text \<open>\<open>json.UnmarshalTypeError\<close>: its \<open>Error\<close> method calls a method of its type, so it panics (no value)
  when there is none.\<close>

record type_error =
  te_value :: string
  te_type :: "string option"

definition type_error_text :: "type_error \<Rightarrow> string option" where
  "type_error_text e = map_option (\<lambda>t. ''json: cannot unmarshal '' @ te_value e @ '' into Go value of type '' @ t) (te_type e)"

definition ErrUnsupportedVersion :: type_error where
  "ErrUnsupportedVersion = \<lparr>te_value = ''version'', te_type = None\<rparr>"

datatype manifest_error = BadManifest | Unsupported type_error

definition UnmarshalManifest ::
    "(string \<Rightarrow> go_time option) \<Rightarrow> (string \<Rightarrow> string option) \<Rightarrow> bytes \<Rightarrow> manifest_error + Manifest" where
  "UnmarshalManifest lenient float_text b =
     (case Option.bind (json_parse b) (\<lambda>v. into_struct (manifest_field lenient float_text) v zero_manifest) of
        None \<Rightarrow> Inl BadManifest
      | Some m \<Rightarrow> if mf_version m \<noteq> BundleVersion then Inl (Unsupported ErrUnsupportedVersion) else Inr m)"

subsection \<open>What the manifest functions promise\<close>

definition manifest_ok :: "(string \<Rightarrow> string option) \<Rightarrow> Manifest \<Rightarrow> bool" where
  "manifest_ok float_text m \<longleftrightarrow>
     time_ok (created_at m)
     \<and> valid_utf8 (created_by m) \<and> valid_utf8 (mf_root_hash m) \<and> valid_utf8 (cr_filename (checkpoint m))
     \<and> valid_utf8 (cr_key_id (checkpoint m)) \<and> valid_utf8 (cr_signature (checkpoint m))
     \<and> in_int64 (mf_tree_size m) \<and> in_int64 (evidence_count m)
     \<and> in_int64 (lr_first (leaf_range m)) \<and> in_int64 (lr_last (leaf_range m))
     \<and> (\<forall>vs. entries m = Some vs \<longrightarrow> any_elems float_text vs = Some vs
          \<and> (\<forall>v \<in> set vs. json_wf v \<and> json_depth v \<le> 9998))"

lemma fold_max_le: "(a :: nat) \<le> b \<Longrightarrow> \<forall>x \<in> set xs. x \<le> b \<Longrightarrow> fold max xs a \<le> b"
  by (induction xs arbitrary: a) auto

lemma time_json_ascii: "time_json t = Some s \<Longrightarrow> c \<in> set s \<Longrightarrow> code c < (128::nat)"
proof -
  assume s: "time_json t = Some s" and c: "c \<in> set s"
  have pad: "code d < (128::nat)" if "d \<in> set (pad w n)" for d w n
    using set_pad [OF that] by (simp add: is_digit_def)
  have frac: "code d < (128::nat)" if "d \<in> set (format_nsec n)" for d n
    using that pad [of d 9 n] by (auto simp: format_nsec_def Let_def dest: set_dropWhileD split: if_splits)
  have zone: "code d < (128::nat)" if "d \<in> set (format_zone z)" for d z
    using that by (auto simp: format_zone_def dest: pad split: if_splits)
  show ?thesis using s c by (auto simp: time_json_def dest: pad frac zone split: if_splits)
qed

lemma manifest_json_wf:
  assumes "manifest_ok float_text m" "time_json (created_at m) = Some at" "valid_utf8 (mf_version m)"
  shows "json_wf (manifest_json at m)" "json_depth (manifest_json at m) \<le> max_depth"
proof -
  have "valid_utf8 at" using time_json_ascii [OF assms(2)] by (intro valid_utf8_ascii) blast
  then show "json_wf (manifest_json at m)"
    using assms by (auto simp: manifest_ok_def manifest_json_def jint_def valid_utf8_ascii split: option.splits)
  have "json_depth (case entries m of None \<Rightarrow> JNull | Some vs \<Rightarrow> JArr vs) \<le> 9999"
    using assms(1) by (auto simp: manifest_ok_def split: option.splits intro!: fold_max_le)
  then show "json_depth (manifest_json at m) \<le> max_depth"
    by (simp add: manifest_json_def jint_def max_depth_def)
qed

lemma manifest_decode:
  assumes "manifest_ok float_text m" "time_json (created_at m) = Some at"
  shows "into_struct (manifest_field lenient float_text) (manifest_json at m) zero_manifest = Some m"
proof -
  have lr: "into_struct leaf_range_field (JObj [(''first'', jint a), (''last'', jint b)]) r = Some \<lparr>lr_first = a, lr_last = b\<rparr>"
    if "in_int64 a" "in_int64 b" for a b r
    using that by (simp add: into_struct_def leaf_range_field_def jint_def ParseInt64_FormatInt field_eval)
  have cr: "into_struct checkpoint_ref_field (JObj [(''filename'', JStr a), (''key_id'', JStr b), (''signature'', JStr c)]) r
      = Some \<lparr>cr_filename = a, cr_key_id = b, cr_signature = c\<rparr>" for a b c r
    by (simp add: into_struct_def checkpoint_ref_field_def field_eval)
  have time: "into_time lenient (JStr at) old = Some (created_at m)" for old
    using assms time_roundtrip [of "created_at m" at] by (simp add: into_time_def manifest_ok_def)
  have entries: "into_entries float_text (case entries m of None \<Rightarrow> JNull | Some vs \<Rightarrow> JArr vs) = Some (entries m)"
    using assms(1) by (auto simp: into_entries_def manifest_ok_def split: option.splits)
  have int: "into_int64 (jint i) old = Some i" if "in_int64 i" for i old
    using that by (simp add: jint_def ParseInt64_FormatInt)
  show ?thesis
    using assms(1)
    by (simp add: into_struct_def [of "manifest_field lenient float_text"] manifest_json_def manifest_field_def
        zero_manifest_def lr cr time entries int manifest_ok_def field_eval)
qed

text \<open>C28: A manifest that is marshalled reads back as the same manifest with the current version, and
  marshalling fails only for a time that RFC 3339 cannot express.\<close>

theorem manifest_roundtrip:
  assumes "manifest_ok float_text m"
  shows "(case MarshalManifest m of
            (m', Some b) \<Rightarrow> UnmarshalManifest lenient float_text b = Inr m' \<and> m' = m\<lparr>mf_version := BundleVersion\<rparr>
          | (m', None) \<Rightarrow> gt_year (created_at m) < 0 \<or> gt_year (created_at m) > 9999 \<or> \<bar>gt_offset (created_at m)\<bar> \<ge> 1440)"
proof (cases "time_json (created_at m)")
  case None
  then show ?thesis by (auto simp: MarshalManifest_def Let_def time_json_def split: if_splits)
next
  case (Some at)
  let ?m = "m\<lparr>mf_version := BundleVersion\<rparr>"
  have ok: "manifest_ok float_text ?m" "time_json (created_at ?m) = Some at"
    using assms Some by (simp_all add: manifest_ok_def)
  have "valid_utf8 (mf_version ?m)" by (simp add: BundleVersion_def valid_utf8_ascii)
  note wf = manifest_json_wf [OF ok this]
  have "UnmarshalManifest lenient float_text (json_print (manifest_json at ?m)) = Inr ?m"
    using json_roundtrip [OF wf] manifest_decode [OF ok] by (simp add: UnmarshalManifest_def)
  then show ?thesis using Some by (simp add: MarshalManifest_def Let_def)
qed

lemma manifest_roundtrip_witness:
  "\<exists>b. snd (MarshalManifest zero_manifest) = Some b
     \<and> UnmarshalManifest (\<lambda>_. None) Some b = Inr (zero_manifest\<lparr>mf_version := ''1''\<rparr>)"
proof -
  have "manifest_ok Some zero_manifest"
    by (simp add: manifest_ok_def zero_manifest_def zero_time_def time_ok_def days_in_def int64_defs valid_utf8_ascii)
  from manifest_roundtrip [OF this, of "\<lambda>_. None"] show ?thesis
    by (auto simp: BundleVersion_def zero_manifest_def zero_time_def split: prod.splits option.splits)
qed

text \<open>Only manifests of the current version are accepted, and the error for any other version
  cannot be printed: asking for its text panics.\<close>

lemma manifest_version_error:
  "(\<forall>m. UnmarshalManifest lenient float_text b = Inr m \<longrightarrow> mf_version m = ''1'')
   \<and> (\<forall>e. UnmarshalManifest lenient float_text b = Inl (Unsupported e) \<longrightarrow> type_error_text e = None)
   \<and> (manifest_ok float_text m \<and> valid_utf8 (mf_version m) \<and> mf_version m \<noteq> ''1'' \<and> time_json (created_at m) = Some at \<longrightarrow>
        UnmarshalManifest lenient float_text (json_print (manifest_json at m)) = Inl (Unsupported ErrUnsupportedVersion))"
proof (intro conjI allI impI)
  assume m: "manifest_ok float_text m \<and> valid_utf8 (mf_version m) \<and> mf_version m \<noteq> ''1'' \<and> time_json (created_at m) = Some at"
  then have "json_parse (json_print (manifest_json at m)) = Some (manifest_json at m)"
    using manifest_json_wf [of float_text m at] by (intro json_roundtrip) simp_all
  with m show "UnmarshalManifest lenient float_text (json_print (manifest_json at m)) = Inl (Unsupported ErrUnsupportedVersion)"
    using manifest_decode [of float_text m at lenient] by (simp add: UnmarshalManifest_def BundleVersion_def)
qed (auto simp: UnmarshalManifest_def BundleVersion_def ErrUnsupportedVersion_def type_error_text_def split: option.splits if_splits)

lemma manifest_version_error_witness:
  "\<exists>at. UnmarshalManifest (\<lambda>_. None) Some (json_print (manifest_json at (zero_manifest\<lparr>mf_version := ''2''\<rparr>)))
     = Inl (Unsupported ErrUnsupportedVersion)"
proof -
  have "manifest_ok Some (zero_manifest\<lparr>mf_version := ''2''\<rparr>)"
    by (simp add: manifest_ok_def zero_manifest_def zero_time_def time_ok_def days_in_def int64_defs valid_utf8_ascii)
  moreover obtain at where "time_json (created_at (zero_manifest\<lparr>mf_version := ''2''\<rparr>)) = Some at"
    by (simp add: time_json_def zero_manifest_def zero_time_def)
  ultimately show ?thesis
    using manifest_version_error [of "\<lambda>_. None" Some "[]" "zero_manifest\<lparr>mf_version := ''2''\<rparr>" at]
    by (auto simp: valid_utf8_ascii)
qed

end
