(* ===== verification/Stubs.thy ===== *)
theory Stubs
  imports Prelude
begin

text \<open>
  Parts of \<open>vault-api\<close> that the program declares and does not fill in yet: the client of the Merkle
  engine (\<open>internal/merklerpc/client.go\<close>) with the types of its interface
  (\<open>domain/merkle/interface.go\<close>), the message pipeline (\<open>internal/pipeline\<close>) and the configuration
  (\<open>config/config.go\<close>). Nothing in the server calls them.
\<close>

subsection \<open>The Merkle engine's client\<close>

record InclusionProof =
  ip_leaf_index :: int
  ip_tree_size :: int
  ip_root :: string
  ip_path :: "string list"

record ConsistencyProof =
  cp_old_size :: int
  cp_new_size :: int
  cp_path :: "string list"

text \<open>The operations of the interface; every one can fail with a message.\<close>

record 'e Engine =
  AppendLeaf :: "'e \<Rightarrow> bytes \<Rightarrow> string + (int \<times> bytes)"
  GetInclusionProof :: "'e \<Rightarrow> int \<Rightarrow> string + InclusionProof"
  GetConsistencyProof :: "'e \<Rightarrow> int \<Rightarrow> int \<Rightarrow> string + ConsistencyProof"
  TreeSize :: "'e \<Rightarrow> string + int"
  EngineRoot :: "'e \<Rightarrow> string + bytes"

text \<open>\<open>NewClient\<close> drops its target.\<close>

definition NewClient :: "string \<Rightarrow> unit" where
  "NewClient target = ()"

definition client_ops :: "unit Engine" where
  "client_ops =
     \<lparr>AppendLeaf = (\<lambda>c leaf. Inl ''not implemented''), GetInclusionProof = (\<lambda>c i. Inl ''not implemented''),
      GetConsistencyProof = (\<lambda>c old new. Inl ''not implemented''), TreeSize = (\<lambda>c. Inl ''not implemented''),
      EngineRoot = (\<lambda>c. Inl ''not implemented'')\<rparr>"

subsection \<open>The pipeline\<close>

text \<open>\<open>Publish\<close> reports success and sends nothing; \<open>sent\<close> is what has left the process.\<close>

definition Publish :: "string \<Rightarrow> bytes \<Rightarrow> (string \<times> bytes) list \<Rightarrow> (string + unit) \<times> (string \<times> bytes) list" where
  "Publish key payload sent = (Inr (), sent)"

text \<open>\<open>Start\<close> prints a line and returns when its context is cancelled (never, for \<open>False\<close>).\<close>

definition Start :: "bool \<Rightarrow> string option" where
  "Start cancelled = (if cancelled then Some ''pipeline consumer started (stub)'' else None)"

subsection \<open>Configuration\<close>

record ServerConfig =
  HTTPAddr :: string
  GRPCAddr :: string
  ReadTimeout :: int      \<comment> \<open>nanoseconds\<close>

definition Load :: "string \<Rightarrow> string + ServerConfig" where
  "Load p = Inr \<lparr>HTTPAddr = '':8443'', GRPCAddr = '':9443'', ReadTimeout = 30 * 1000000000\<rparr>"

text \<open>Whatever a caller sends, nothing is kept: no leaf is appended and no message leaves the process.\<close>

lemma stubs_keep_nothing:
  "AppendLeaf client_ops (NewClient t) leaf = Inl ''not implemented''" "TreeSize client_ops (NewClient t) = Inl ''not implemented''"
  "snd (Publish k v sent) = sent" "Load p = Load q"
  by (simp_all add: client_ops_def Publish_def Load_def)

end
